theory Spec2Isabelle
  imports Main
begin

section \<open>JavaScript values\<close>

text \<open>
  The values that cross the message channel are the results of \<^verbatim>\<open>JSON.parse\<close>.
  \<open>JObj\<close> lists the own properties of a parsed object, each key once (a lookup takes
  the first entry of a key); \<open>JUndefined\<close> is what reading an absent property gives.
  Numbers are restricted to the integers of magnitude below \<open>10\<^sup>2\<^sup>1\<close>, which
  \<^verbatim>\<open>toString\<close> renders in decimal; the code only tests numbers for truthiness and uses
  them as property keys.
\<close>

datatype jsval =
    JUndefined
  | JNull
  | JBool bool
  | JNum int
  | JStr string
  | JArr "jsval list"
  | JObj "(string \<times> jsval) list"

text \<open>Exceptions: the two built-in ones the code can meet, and whatever a callee throws.\<close>

datatype jsexn = TypeError | SyntaxError | Thrown jsval

text \<open>ToBoolean, as used by \<^verbatim>\<open>if (x)\<close>, \<^verbatim>\<open>!!x\<close>, \<^verbatim>\<open>x && y\<close> and \<^verbatim>\<open>x || y\<close>.\<close>

fun truthy :: "jsval \<Rightarrow> bool" where
  "truthy JUndefined = False"
| "truthy JNull = False"
| "truthy (JBool b) = b"
| "truthy (JNum n) = (n \<noteq> 0)"
| "truthy (JStr s) = (s \<noteq> [])"
| "truthy (JArr xs) = True"
| "truthy (JObj ps) = True"

text \<open>
  Reading one of the envelope fields (\<^verbatim>\<open>event\<close>, \<^verbatim>\<open>id\<close>, \<^verbatim>\<open>name\<close>, \<^verbatim>\<open>args\<close>,
  \<^verbatim>\<open>result\<close>, \<^verbatim>\<open>success\<close>) of a truthy value: an own property of an object, and
  \<^verbatim>\<open>undefined\<close> otherwise (none of these names is inherited by a parsed value).
  The code reads properties of truthy values only.
\<close>

fun getProp :: "jsval \<Rightarrow> string \<Rightarrow> jsval" where
  "getProp (JObj ps) k = (case map_of ps k of Some v \<Rightarrow> v | None \<Rightarrow> JUndefined)"
| "getProp v k = JUndefined"

text \<open>Decimal rendering of the callback counter and of integer property keys.\<close>

definition digit :: "nat \<Rightarrow> char" where
  "digit n = ''0123456789'' ! (n mod 10)"

function showNat :: "nat \<Rightarrow> string" where
  "showNat n = (if n < 10 then [digit n] else showNat (n div 10) @ [digit n])"
  by pat_completeness auto
termination
  by (relation "measure id") auto

declare showNat.simps [simp del]

definition showInt :: "int \<Rightarrow> string" where
  "showInt i = (if i < 0 then CHR ''-'' # showNat (nat (- i)) else showNat (nat i))"

text \<open>\<^verbatim>\<open>Array.prototype.join\<close> with the separator \<^verbatim>\<open>,\<close> on already converted elements;
  the first element whose conversion throws decides.\<close>

fun joinElems :: "(jsexn + string) list \<Rightarrow> jsexn + string" where
  "joinElems [] = Inr []"
| "joinElems [x] = x"
| "joinElems (Inl e # xs) = Inl e"
| "joinElems (Inr s # xs) =
     (case joinElems xs of Inl e \<Rightarrow> Inl e | Inr t \<Rightarrow> Inr (s @ '','' @ t))"

text \<open>
  ToPropertyKey, applied by \<^verbatim>\<open>table[key]\<close>. A parsed object is rendered by the
  inherited \<^verbatim>\<open>toString\<close>; an own, hence not callable, \<^verbatim>\<open>toString\<close> property leaves
  no conversion and the access throws.
\<close>

fun toPropertyKey :: "jsval \<Rightarrow> jsexn + string" where
  "toPropertyKey JUndefined = Inr ''undefined''"
| "toPropertyKey JNull = Inr ''null''"
| "toPropertyKey (JBool b) = Inr (if b then ''true'' else ''false'')"
| "toPropertyKey (JNum n) = Inr (showInt n)"
| "toPropertyKey (JStr s) = Inr s"
| "toPropertyKey (JArr xs) =
     joinElems (map (\<lambda>x. if x = JUndefined \<or> x = JNull then Inr [] else toPropertyKey x) xs)"
| "toPropertyKey (JObj ps) =
     (if ''toString'' \<in> fst ` set ps then Inl TypeError else Inr ''[object Object]'')"

section \<open>util\<close>

text \<open>\<^verbatim>\<open>any(array, predicate)\<close>: the loop returns at the first match.\<close>

fun any :: "'a list \<Rightarrow> ('a \<Rightarrow> bool) \<Rightarrow> bool" where
  "any [] predicate = False"
| "any (current # rest) predicate = (if predicate current then True else any rest predicate)"

text \<open>\<^verbatim>\<open>merge(target, source)\<close>: the own properties of a truthy source overwrite the
  target's. The one caller passes \<^verbatim>\<open>null\<close> or an object literal.\<close>

fun merge_props :: "(string \<times> jsval) list \<Rightarrow> (string \<times> jsval) list \<Rightarrow> (string \<times> jsval) list" where
  "merge_props target [] = target"
| "merge_props target ((attr, v) # source) =
     merge_props (if attr \<in> fst ` set target
                  then map (\<lambda>(k, w). if k = attr then (k, v) else (k, w)) target
                  else target @ [(attr, v)]) source"

definition merge :: "(string \<times> jsval) list \<Rightarrow> jsval \<Rightarrow> (string \<times> jsval) list" where
  "merge target source = (case source of JObj ps \<Rightarrow> merge_props target ps | _ \<Rightarrow> target)"

section \<open>MulticastDispatcher\<close>

text \<open>
  Functions and scope objects are known by reference: \<^verbatim>\<open>===\<close> on them is equality of
  the reference. A function is a function of the add-in (\<open>Fn\<close>) or one of the two
  settling functions of a promise. A scope is an object reference or \<^verbatim>\<open>undefined\<close>.
\<close>

datatype jsfun = Fn nat | PromiseResolve nat | PromiseReject nat

type_synonym scope = "nat option"

record IHandlerConfig =
  handler :: jsfun
  scope :: scope

text \<open>
  The table \<^verbatim>\<open>handlers\<close> is a plain object literal \<^verbatim>\<open>{}\<close>, so \<^verbatim>\<open>handlers[eventName]\<close>
  finds an own property or else a member inherited from \<^verbatim>\<open>Object.prototype\<close>. A value
  found there is an array of handler configurations, a built-in function (of which the
  loops read \<^verbatim>\<open>length\<close>, its number of parameters, and indexed elements, all
  \<^verbatim>\<open>undefined\<close>), or \<^verbatim>\<open>Object.prototype\<close> itself (whose \<^verbatim>\<open>length\<close> is
  \<^verbatim>\<open>undefined\<close>).
\<close>

datatype member =
    HandlerArray "IHandlerConfig list"
  | BuiltinFunction nat
  | ObjectPrototype

record MulticastDispatcher =
  handlers :: "string \<rightharpoonup> member"

definition Object_prototype :: "string \<Rightarrow> member option" where
  "Object_prototype k =
     (if k = ''constructor'' then Some (BuiltinFunction 1)
      else if k = ''hasOwnProperty'' then Some (BuiltinFunction 1)
      else if k = ''isPrototypeOf'' then Some (BuiltinFunction 1)
      else if k = ''propertyIsEnumerable'' then Some (BuiltinFunction 1)
      else if k = ''toString'' then Some (BuiltinFunction 0)
      else if k = ''toLocaleString'' then Some (BuiltinFunction 0)
      else if k = ''valueOf'' then Some (BuiltinFunction 0)
      else if k = ''__defineGetter__'' then Some (BuiltinFunction 2)
      else if k = ''__defineSetter__'' then Some (BuiltinFunction 2)
      else if k = ''__lookupGetter__'' then Some (BuiltinFunction 1)
      else if k = ''__lookupSetter__'' then Some (BuiltinFunction 1)
      else if k = ''__proto__'' then Some ObjectPrototype
      else None)"

definition new_MulticastDispatcher :: MulticastDispatcher where
  "new_MulticastDispatcher = \<lparr> handlers = Map.empty \<rparr>"

text \<open>\<^verbatim>\<open>getHandlers\<close>: \<open>None\<close> is \<^verbatim>\<open>undefined\<close>.\<close>

definition getHandlers :: "MulticastDispatcher \<Rightarrow> string \<Rightarrow> member option" where
  "getHandlers d eventName =
     (case handlers d eventName of Some m \<Rightarrow> Some m | None \<Rightarrow> Object_prototype eventName)"

text \<open>
  \<^verbatim>\<open>getOrCreateHandlers\<close>: every member is truthy, so \<^verbatim>\<open>||\<close> keeps what was found.
  Assigning to \<^verbatim>\<open>__proto__\<close> runs the inherited setter and creates no own property.
\<close>

definition getOrCreateHandlers :: "MulticastDispatcher \<Rightarrow> string \<Rightarrow> member \<times> MulticastDispatcher" where
  "getOrCreateHandlers d eventName =
     (let v = (case getHandlers d eventName of Some m \<Rightarrow> m | None \<Rightarrow> HandlerArray []);
          d' = (if eventName = ''__proto__'' then d
                else d\<lparr> handlers := (handlers d)(eventName \<mapsto> v) \<rparr>)
      in (case getHandlers d' eventName of Some m \<Rightarrow> m | None \<Rightarrow> v, d'))"

text \<open>
  \<^verbatim>\<open>addHandler\<close>: the handler argument is \<open>None\<close> when it is falsy or not a function.
  \<^verbatim>\<open>push\<close> exists on arrays only.
\<close>

definition addHandler ::
  "MulticastDispatcher \<Rightarrow> string \<Rightarrow> jsfun option \<Rightarrow> scope \<Rightarrow> (jsexn + unit) \<times> MulticastDispatcher" where
  "addHandler d eventName handler_arg scope_arg =
     (case handler_arg of
        None \<Rightarrow> (Inr (), d)
      | Some h \<Rightarrow>
          (case getOrCreateHandlers d eventName of
             (HandlerArray eventHandlers, d') \<Rightarrow>
               (Inr (), d'\<lparr> handlers := (handlers d')(eventName \<mapsto>
                   HandlerArray (eventHandlers @ [\<lparr> handler = h, scope = scope_arg \<rparr>])) \<rparr>)
           | (_, d') \<Rightarrow> (Inl TypeError, d')))"

text \<open>
  The loop of \<^verbatim>\<open>removeHandler\<close> over an array: \<^verbatim>\<open>splice(i, 1)\<close> followed by
  \<^verbatim>\<open>--i\<close> and the loop's \<^verbatim>\<open>++i\<close> leaves \<open>i\<close> where it was.
\<close>

function removeHandler_loop :: "IHandlerConfig list \<Rightarrow> jsfun \<Rightarrow> scope \<Rightarrow> nat \<Rightarrow> IHandlerConfig list" where
  "removeHandler_loop eventHandlers h s i =
     (if i < length eventHandlers
      then (let existingHandler = eventHandlers ! i in
            if handler existingHandler = h \<and> scope existingHandler = s
            then removeHandler_loop (take i eventHandlers @ drop (Suc i) eventHandlers) h s i
            else removeHandler_loop eventHandlers h s (Suc i))
      else eventHandlers)"
  by pat_completeness auto
termination
  by (relation "measure (\<lambda>(eventHandlers, h, s, i). length eventHandlers - i)") auto

declare removeHandler_loop.simps [simp del]

text \<open>
  \<^verbatim>\<open>removeHandler\<close>. On a built-in function the first iteration reads
  \<^verbatim>\<open>eventHandlers[0].handler\<close> with \<^verbatim>\<open>eventHandlers[0]\<close> undefined.
\<close>

definition removeHandler ::
  "MulticastDispatcher \<Rightarrow> string \<Rightarrow> jsfun \<Rightarrow> scope \<Rightarrow> (jsexn + unit) \<times> MulticastDispatcher" where
  "removeHandler d eventName h s =
     (case getHandlers d eventName of
        None \<Rightarrow> (Inr (), d)
      | Some (HandlerArray eventHandlers) \<Rightarrow>
          (Inr (), d\<lparr> handlers := (handlers d)(eventName \<mapsto>
              HandlerArray (removeHandler_loop eventHandlers h s 0)) \<rparr>)
      | Some (BuiltinFunction n) \<Rightarrow> (if 0 < n then (Inl TypeError, d) else (Inr (), d))
      | Some ObjectPrototype \<Rightarrow> (Inr (), d))"

text \<open>
  What the code does to the outside: it applies a function to a scope and an argument
  list, or it posts a message (before \<^verbatim>\<open>JSON.stringify\<close>) to the parent frame.
\<close>

datatype effect = Invoke jsfun scope "jsval list" | Post jsval

text \<open>
  The functions applied belong to the add-in, and what they do is given by an
  environment. For a continuation of a request (\<open>apply_env\<close>) that is the value it returns
  or the exception it throws. For an event handler (\<open>handler_env\<close>) it is that and the
  dispatcher the handler leaves behind: a handler may register and remove handlers
  while the dispatch that called it is running. Handlers act on the dispatcher through
  its methods, which never replace an array once it is in the table, so the array a
  running loop holds is the one found under the event name. Handlers are taken not to
  re-enter the transport that dispatches to them (its requests and its listener).
\<close>

type_synonym apply_env = "jsfun \<Rightarrow> scope \<Rightarrow> jsval list \<Rightarrow> jsexn + jsval"

type_synonym handler_env =
  "jsfun \<Rightarrow> scope \<Rightarrow> jsval list \<Rightarrow> MulticastDispatcher \<Rightarrow> (jsexn + jsval) \<times> MulticastDispatcher"

text \<open>\<^verbatim>\<open>eventHandlers.length\<close> (\<open>None\<close>: undefined, and \<^verbatim>\<open>i < undefined\<close> is false) and
  \<^verbatim>\<open>eventHandlers[i]\<close> (\<open>None\<close>: undefined).\<close>

fun member_length :: "member \<Rightarrow> nat option" where
  "member_length (HandlerArray hs) = Some (length hs)"
| "member_length (BuiltinFunction n) = Some n"
| "member_length ObjectPrototype = None"

fun member_elem :: "member \<Rightarrow> nat \<Rightarrow> IHandlerConfig option" where
  "member_elem (HandlerArray hs) i = (if i < length hs then Some (hs ! i) else None)"
| "member_elem m i = None"

text \<open>
  \<^verbatim>\<open>f.apply(scope, args.slice())\<close> for a truthy \<^verbatim>\<open>args\<close>: an array is copied; any other
  value has no callable \<^verbatim>\<open>slice\<close>, or (a string) is refused by \<^verbatim>\<open>apply\<close>.
\<close>

fun args_slice :: "jsval \<Rightarrow> jsval list option" where
  "args_slice (JArr xs) = Some xs"
| "args_slice v = None"

text \<open>
  The loop of \<^verbatim>\<open>callHandlers\<close>. Each iteration reads \<^verbatim>\<open>eventHandlers.length\<close> and
  \<^verbatim>\<open>eventHandlers[i]\<close> anew, from the array as the handlers called so far have left
  it: \<open>d\<close> is the dispatcher at that moment. A handler that keeps adding handlers keeps
  the loop running for ever; the value \<open>None\<close> stands for a loop that does not return.
  The result is the effects made, the results or the exception, and the dispatcher at
  the end.
\<close>

partial_function (option) callHandlers_loop ::
  "handler_env \<Rightarrow> MulticastDispatcher \<Rightarrow> string \<Rightarrow> jsval \<Rightarrow> nat \<Rightarrow> effect list \<Rightarrow> jsval list \<Rightarrow>
     (effect list \<times> (jsexn + jsval list) \<times> MulticastDispatcher) option" where
  "callHandlers_loop run d eventName args i fx results =
     (case getHandlers d eventName of
        None \<Rightarrow> Some (fx, Inr results, d)
      | Some eventHandlers \<Rightarrow>
          (if (case member_length eventHandlers of None \<Rightarrow> False | Some n \<Rightarrow> i < n)
           then (case member_elem eventHandlers i of
                   None \<Rightarrow> Some (fx, Inl TypeError, d)
                 | Some h \<Rightarrow>
                     (case args_slice args of
                        None \<Rightarrow> Some (fx, Inl TypeError, d)
                      | Some xs \<Rightarrow>
                          (case run (handler h) (scope h) xs d of
                             (Inl e, d') \<Rightarrow> Some (fx @ [Invoke (handler h) (scope h) xs], Inl e, d')
                           | (Inr v, d') \<Rightarrow>
                               callHandlers_loop run d' eventName args (Suc i)
                                 (fx @ [Invoke (handler h) (scope h) xs]) (results @ [v]))))
           else Some (fx, Inr results, d)))"

text \<open>\<^verbatim>\<open>callHandlers\<close>: nothing found under the name gives the empty result at once.\<close>

definition callHandlers ::
  "handler_env \<Rightarrow> MulticastDispatcher \<Rightarrow> string \<Rightarrow> jsval \<Rightarrow>
     (effect list \<times> (jsexn + jsval list) \<times> MulticastDispatcher) option" where
  "callHandlers run d eventName args =
     (let args' = (if truthy args then args else JArr []) in
      case getHandlers d eventName of
        None \<Rightarrow> Some ([], Inr [], d)
      | Some eventHandlers \<Rightarrow> callHandlers_loop run d eventName args' 0 [] [])"

text \<open>
  The dispatch as the specification words it, for comparison with the loop: the
  handlers of a given list are invoked in order, each once, with the argument list and
  its own scope, until one throws; the return values are collected in order.
\<close>

fun dispatch_in_order ::
  "handler_env \<Rightarrow> IHandlerConfig list \<Rightarrow> jsval list \<Rightarrow> MulticastDispatcher \<Rightarrow>
     effect list \<times> (jsexn + jsval list) \<times> MulticastDispatcher" where
  "dispatch_in_order run [] xs d = ([], Inr [], d)"
| "dispatch_in_order run (h # hs) xs d =
     (case run (handler h) (scope h) xs d of
        (Inl e, d') \<Rightarrow> ([Invoke (handler h) (scope h) xs], Inl e, d')
      | (Inr v, d') \<Rightarrow>
          (case dispatch_in_order run hs xs d' of
             (fx, Inl e, d'') \<Rightarrow> (Invoke (handler h) (scope h) xs # fx, Inl e, d'')
           | (fx, Inr rs, d'') \<Rightarrow> (Invoke (handler h) (scope h) xs # fx, Inr (v # rs), d'')))"

section \<open>PostMessageAddInClient\<close>

text \<open>A registered callback; \<open>None\<close> is a continuation the caller did not pass.\<close>

record ICallbackConfig =
  success :: "jsfun option"
  failure :: "jsfun option"
  cscope :: scope

record PostMessageAddInClient =
  eventDispatcher :: MulticastDispatcher
  nextCallbackId :: nat
  callbacks :: "string \<rightharpoonup> ICallbackConfig"

definition callbackPrefix :: string where
  "callbackPrefix = ''cb-''"

text \<open>The fields as initialised; the constructor also attaches the listener and registers.\<close>

definition new_PostMessageAddInClient :: PostMessageAddInClient where
  "new_PostMessageAddInClient =
     \<lparr> eventDispatcher = new_MulticastDispatcher, nextCallbackId = 1, callbacks = Map.empty \<rparr>"

text \<open>
  \<^verbatim>\<open>this.callbacks[key]\<close>. The table is an object literal too: under an inherited name
  the lookup finds a built-in member, which is truthy and has neither a \<^verbatim>\<open>success\<close> nor
  a \<^verbatim>\<open>failure\<close> property.
\<close>

definition lookup_callback :: "PostMessageAddInClient \<Rightarrow> string \<Rightarrow> ICallbackConfig option" where
  "lookup_callback c key =
     (case callbacks c key of
        Some callback \<Rightarrow> Some callback
      | None \<Rightarrow>
          (case Object_prototype key of
             Some m \<Rightarrow> Some \<lparr> success = None, failure = None, cscope = None \<rparr>
           | None \<Rightarrow> None))"

definition isApiEvent :: "jsval \<Rightarrow> bool" where
  "isApiEvent message = truthy (getProp message ''event'')"

definition isApiResponse :: "jsval \<Rightarrow> bool" where
  "isApiResponse message = truthy (getProp message ''id'')"

text \<open>
  \<^verbatim>\<open>dispatchApiEvent\<close>. The event name becomes a property key when \<^verbatim>\<open>getHandlers\<close>
  indexes the table with it. The method writes none of the client's fields; the
  dispatcher in the client returned is the one the handlers have left. \<open>None\<close>: the
  dispatch does not return.
\<close>

definition dispatchApiEvent ::
  "handler_env \<Rightarrow> PostMessageAddInClient \<Rightarrow> jsval \<Rightarrow>
     (effect list \<times> (jsexn + unit) \<times> PostMessageAddInClient) option" where
  "dispatchApiEvent run c message =
     (let apiEvent = getProp message ''event'' in
      case toPropertyKey (getProp apiEvent ''name'') of
        Inl e \<Rightarrow> Some ([], Inl e, c)
      | Inr eventName \<Rightarrow>
          (case callHandlers run (eventDispatcher c) eventName (getProp apiEvent ''args'') of
             None \<Rightarrow> None
           | Some (fx, Inl e, d') \<Rightarrow> Some (fx, Inl e, c\<lparr> eventDispatcher := d' \<rparr>)
           | Some (fx, Inr results, d') \<Rightarrow>
               (if truthy (getProp apiEvent ''id'')
                then (let result = any results (\<lambda>item. item = JBool True);
                          response = JObj [(''eventId'', getProp apiEvent ''id''),
                                           (''stopEvent'', JBool result)]
                      in Some (fx @ [Post response], Inr (), c\<lparr> eventDispatcher := d' \<rparr>))
                else Some (fx, Inr (), c\<lparr> eventDispatcher := d' \<rparr>))))"

definition addCallback ::
  "PostMessageAddInClient \<Rightarrow> jsfun option \<Rightarrow> jsfun option \<Rightarrow> scope \<Rightarrow> string \<times> PostMessageAddInClient" where
  "addCallback c success_arg failure_arg scope_arg =
     (let callback = \<lparr> success = success_arg, failure = failure_arg, cscope = scope_arg \<rparr>;
          callbackId = callbackPrefix @ showNat (nextCallbackId c)
      in (callbackId,
          c\<lparr> nextCallbackId := Suc (nextCallbackId c),
             callbacks := (callbacks c)(callbackId \<mapsto> callback) \<rparr>))"

text \<open>
  \<^verbatim>\<open>invokeResponseCallback\<close>. The client returned is the one the continuation finds when
  it is entered: the entry is deleted before the call, and the call is the last thing
  the method does.
\<close>

definition invokeResponseCallback ::
  "apply_env \<Rightarrow> PostMessageAddInClient \<Rightarrow> jsval \<Rightarrow>
     PostMessageAddInClient \<times> effect list \<times> (jsexn + unit)" where
  "invokeResponseCallback app c message =
     (if truthy (getProp message ''id'')
      then (case toPropertyKey (getProp message ''id'') of
              Inl e \<Rightarrow> (c, [], Inl e)
            | Inr key \<Rightarrow>
                (case lookup_callback c key of
                   None \<Rightarrow> (c, [], Inr ())
                 | Some callback \<Rightarrow>
                     (let response = (if truthy (getProp message ''result'')
                                      then getProp message ''result'' else JStr []);
                          c' = c\<lparr> callbacks := (callbacks c)(key := None) \<rparr>
                      in if truthy (getProp message ''success'') \<and> success callback \<noteq> None
                         then (c', [Invoke (the (success callback)) (cscope callback) [response]],
                               (case app (the (success callback)) (cscope callback) [response] of
                                  Inl e \<Rightarrow> Inl e | Inr v \<Rightarrow> Inr ()))
                         else if \<not> truthy (getProp message ''success'') \<and> failure callback \<noteq> None
                         then (c', [Invoke (the (failure callback)) (cscope callback) [response]],
                               (case app (the (failure callback)) (cscope callback) [response] of
                                  Inl e \<Rightarrow> Inl e | Inr v \<Rightarrow> Inr ()))
                         else (c', [], Inr ()))))
      else (c, [], Inr ()))"

text \<open>
  \<^verbatim>\<open>onMessageReceived\<close>. The argument is what \<^verbatim>\<open>JSON.parse(event.data)\<close> does with the
  frame's body: it throws a \<^verbatim>\<open>SyntaxError\<close> or gives a value. There is no handler
  around the call. \<open>None\<close>: the listener does not return.
\<close>

definition onMessageReceived ::
  "handler_env \<Rightarrow> apply_env \<Rightarrow> PostMessageAddInClient \<Rightarrow> jsexn + jsval \<Rightarrow>
     (PostMessageAddInClient \<times> effect list \<times> (jsexn + unit)) option" where
  "onMessageReceived run app c parsed =
     (case parsed of
        Inl e \<Rightarrow> Some (c, [], Inl e)
      | Inr message \<Rightarrow>
          (if truthy message
           then (if isApiEvent message
                 then (case dispatchApiEvent run c message of
                         None \<Rightarrow> None
                       | Some (fx, out, c') \<Rightarrow> Some (c', fx, out))
                 else if isApiResponse message
                 then Some (invokeResponseCallback app c message)
                 else Some (c, [], Inr ()))
           else Some (c, [], Inr ())))"

definition sendApiRequest ::
  "PostMessageAddInClient \<Rightarrow> string \<Rightarrow> jsfun option \<Rightarrow> jsfun option \<Rightarrow> scope \<Rightarrow> jsval \<Rightarrow>
     PostMessageAddInClient \<times> effect list" where
  "sendApiRequest c method success_arg failure_arg scope_arg args =
     (case addCallback c success_arg failure_arg scope_arg of
        (callbackId, c') \<Rightarrow>
          (let message = merge [(''id'', JStr callbackId), (''method'', JStr method)] args
           in (c', [Post (JObj message)])))"

definition register :: "effect list" where
  "register = [Post (JObj [(''method'', JStr ''Register'')])]"

text \<open>The facade of the message transport. \<open>args\<close> defaults to \<^verbatim>\<open>null\<close>.\<close>

definition getChatRoom ::
  "PostMessageAddInClient \<Rightarrow> jsfun option \<Rightarrow> jsfun option \<Rightarrow> scope \<Rightarrow> PostMessageAddInClient \<times> effect list" where
  "getChatRoom c success_arg failure_arg scope_arg =
     sendApiRequest c ''GetChatRoom'' success_arg failure_arg scope_arg JNull"

definition getLocalUserDetails ::
  "PostMessageAddInClient \<Rightarrow> jsfun option \<Rightarrow> jsfun option \<Rightarrow> scope \<Rightarrow> PostMessageAddInClient \<times> effect list" where
  "getLocalUserDetails c success_arg failure_arg scope_arg =
     sendApiRequest c ''GetLocalUserDetails'' success_arg failure_arg scope_arg JNull"

definition getDomainDetails ::
  "PostMessageAddInClient \<Rightarrow> jsfun option \<Rightarrow> jsfun option \<Rightarrow> scope \<Rightarrow> PostMessageAddInClient \<times> effect list" where
  "getDomainDetails c success_arg failure_arg scope_arg =
     sendApiRequest c ''GetDomainDetails'' success_arg failure_arg scope_arg JNull"

definition getMaxMessageLength ::
  "PostMessageAddInClient \<Rightarrow> jsfun option \<Rightarrow> jsfun option \<Rightarrow> scope \<Rightarrow> PostMessageAddInClient \<times> effect list" where
  "getMaxMessageLength c success_arg failure_arg scope_arg =
     sendApiRequest c ''GetMaxMessageLength'' success_arg failure_arg scope_arg JNull"

definition sendMessage ::
  "PostMessageAddInClient \<Rightarrow> string \<Rightarrow> bool \<Rightarrow> jsfun option \<Rightarrow> jsfun option \<Rightarrow> scope \<Rightarrow>
     PostMessageAddInClient \<times> effect list" where
  "sendMessage c message alert success_arg failure_arg scope_arg =
     sendApiRequest c ''SendMessage'' success_arg failure_arg scope_arg
       (JObj [(''message'', JStr message), (''alert'', JBool alert)])"

text \<open>
  The awaitable variants: \<^verbatim>\<open>new Promise((resolve, reject) => this.getChatRoom(resolve, reject))\<close>
  runs the executor at once, with the settling functions of the new promise \<open>p\<close> as the
  continuations and no scope.
\<close>

definition getChatRoomAsync :: "PostMessageAddInClient \<Rightarrow> nat \<Rightarrow> PostMessageAddInClient \<times> effect list" where
  "getChatRoomAsync c p = getChatRoom c (Some (PromiseResolve p)) (Some (PromiseReject p)) None"

definition getLocalUserDetailsAsync :: "PostMessageAddInClient \<Rightarrow> nat \<Rightarrow> PostMessageAddInClient \<times> effect list" where
  "getLocalUserDetailsAsync c p =
     getLocalUserDetails c (Some (PromiseResolve p)) (Some (PromiseReject p)) None"

definition getDomainDetailsAsync :: "PostMessageAddInClient \<Rightarrow> nat \<Rightarrow> PostMessageAddInClient \<times> effect list" where
  "getDomainDetailsAsync c p =
     getDomainDetails c (Some (PromiseResolve p)) (Some (PromiseReject p)) None"

definition getMaxMessageLengthAsync :: "PostMessageAddInClient \<Rightarrow> nat \<Rightarrow> PostMessageAddInClient \<times> effect list" where
  "getMaxMessageLengthAsync c p =
     getMaxMessageLength c (Some (PromiseResolve p)) (Some (PromiseReject p)) None"

definition sendMessageAsync ::
  "PostMessageAddInClient \<Rightarrow> string \<Rightarrow> bool \<Rightarrow> nat \<Rightarrow> PostMessageAddInClient \<times> effect list" where
  "sendMessageAsync c message alert p =
     sendMessage c message alert (Some (PromiseResolve p)) (Some (PromiseReject p)) None"

text \<open>What applying a settling function does to the promises: the first call settles.\<close>

datatype promise_state = Pending | Fulfilled jsval | Rejected jsval

fun first_arg :: "jsval list \<Rightarrow> jsval" where
  "first_arg [] = JUndefined"
| "first_arg (v # vs) = v"

fun settle :: "(nat \<Rightarrow> promise_state) \<Rightarrow> effect \<Rightarrow> (nat \<Rightarrow> promise_state)" where
  "settle ps (Invoke (PromiseResolve p) s args) =
     (if ps p = Pending then ps(p := Fulfilled (first_arg args)) else ps)"
| "settle ps (Invoke (PromiseReject p) s args) =
     (if ps p = Pending then ps(p := Rejected (first_arg args)) else ps)"
| "settle ps fx = ps"

text \<open>The handler registrations of the message transport.\<close>

definition addMessageReceivedHandler ::
  "PostMessageAddInClient \<Rightarrow> jsfun option \<Rightarrow> scope \<Rightarrow> (jsexn + unit) \<times> PostMessageAddInClient" where
  "addMessageReceivedHandler c handler_arg scope_arg =
     (case addHandler (eventDispatcher c) ''messagereceived'' handler_arg scope_arg of
        (out, d) \<Rightarrow> (out, c\<lparr> eventDispatcher := d \<rparr>))"

definition addBeforeMessageSendHandler ::
  "PostMessageAddInClient \<Rightarrow> jsfun option \<Rightarrow> scope \<Rightarrow> (jsexn + unit) \<times> PostMessageAddInClient" where
  "addBeforeMessageSendHandler c handler_arg scope_arg =
     (case addHandler (eventDispatcher c) ''beforemessagesend'' handler_arg scope_arg of
        (out, d) \<Rightarrow> (out, c\<lparr> eventDispatcher := d \<rparr>))"

definition addClosingHandler ::
  "PostMessageAddInClient \<Rightarrow> jsfun option \<Rightarrow> scope \<Rightarrow> (jsexn + unit) \<times> PostMessageAddInClient" where
  "addClosingHandler c handler_arg scope_arg =
     (case addHandler (eventDispatcher c) ''closing'' handler_arg scope_arg of
        (out, d) \<Rightarrow> (out, c\<lparr> eventDispatcher := d \<rparr>))"

section \<open>DirectAddInClient\<close>

text \<open>The fields the host-to-client callbacks use.\<close>

record DirectAddInClient =
  dispatcher :: MulticastDispatcher
  initialized :: bool

text \<open>
  The three handlers are methods on the prototype: function objects that find their
  client through \<^verbatim>\<open>this\<close>, which is bound when they are called. \<open>ThisClient\<close> is the
  client instance; \<open>ThisWindow\<close> is the global object, the receiver of a call
  \<^verbatim>\<open>window.MessagePosting(m)\<close>; \<open>ThisUndefined\<close> is what a strict-mode function called
  without a receiver sees.
\<close>

datatype this_value = ThisUndefined | ThisWindow | ThisClient

datatype direct_method = M_messageReceivedHandler | M_beforeMessagePostHandler | M_closingHandler

text \<open>The global callback slots of the page; \<open>None\<close> is a slot nobody wrote.\<close>

record window_slots =
  MessageReceived :: "direct_method option"
  MessagePosting :: "direct_method option"
  Closing :: "direct_method option"

text \<open>
  \<^verbatim>\<open>this.dispatcher\<close>: the client's field when \<^verbatim>\<open>this\<close> is the client. The library
  defines no global of that name, so on the global object the property is undefined;
  \<open>None\<close> stands for both that and the failed read on \<^verbatim>\<open>undefined\<close>, after either of
  which \<^verbatim>\<open>.callHandlers(...)\<close> throws.
\<close>

fun this_dispatcher :: "DirectAddInClient \<Rightarrow> this_value \<Rightarrow> MulticastDispatcher option" where
  "this_dispatcher c ThisClient = Some (dispatcher c)"
| "this_dispatcher c ThisWindow = None"
| "this_dispatcher c ThisUndefined = None"

text \<open>The three handler methods. Each returns its effects, its result or exception, and
  the client with the dispatcher as the handlers have left it; \<open>None\<close>: it does not
  return.\<close>

definition messageReceivedHandler ::
  "handler_env \<Rightarrow> DirectAddInClient \<Rightarrow> this_value \<Rightarrow> jsval \<Rightarrow> jsval \<Rightarrow>
     (effect list \<times> (jsexn + jsval) \<times> DirectAddInClient) option" where
  "messageReceivedHandler run c this message sender =
     (case this_dispatcher c this of
        None \<Rightarrow> Some ([], Inl TypeError, c)
      | Some d \<Rightarrow>
          (case callHandlers run d ''messagereceived'' (JArr [message, sender]) of
             None \<Rightarrow> None
           | Some (fx, Inl e, d') \<Rightarrow> Some (fx, Inl e, c\<lparr> dispatcher := d' \<rparr>)
           | Some (fx, Inr results, d') \<Rightarrow> Some (fx, Inr JUndefined, c\<lparr> dispatcher := d' \<rparr>)))"

definition beforeMessagePostHandler ::
  "handler_env \<Rightarrow> DirectAddInClient \<Rightarrow> this_value \<Rightarrow> jsval \<Rightarrow>
     (effect list \<times> (jsexn + jsval) \<times> DirectAddInClient) option" where
  "beforeMessagePostHandler run c this message =
     (case this_dispatcher c this of
        None \<Rightarrow> Some ([], Inl TypeError, c)
      | Some d \<Rightarrow>
          (case callHandlers run d ''beforemessagesend'' (JArr [message]) of
             None \<Rightarrow> None
           | Some (fx, Inl e, d') \<Rightarrow> Some (fx, Inl e, c\<lparr> dispatcher := d' \<rparr>)
           | Some (fx, Inr results, d') \<Rightarrow>
               Some (fx, Inr (JBool (any results (\<lambda>item. item = JBool True))),
                     c\<lparr> dispatcher := d' \<rparr>)))"

definition closingHandler ::
  "handler_env \<Rightarrow> DirectAddInClient \<Rightarrow> this_value \<Rightarrow>
     (effect list \<times> (jsexn + jsval) \<times> DirectAddInClient) option" where
  "closingHandler run c this =
     (case this_dispatcher c this of
        None \<Rightarrow> Some ([], Inl TypeError, c)
      | Some d \<Rightarrow>
          (case callHandlers run d ''closing'' (JArr []) of
             None \<Rightarrow> None
           | Some (fx, Inl e, d') \<Rightarrow> Some (fx, Inl e, c\<lparr> dispatcher := d' \<rparr>)
           | Some (fx, Inr results, d') \<Rightarrow> Some (fx, Inr JUndefined, c\<lparr> dispatcher := d' \<rparr>)))"

text \<open>\<^verbatim>\<open>registerApiHandlers\<close> stores the methods as they are read off the instance.\<close>

definition registerApiHandlers :: "window_slots \<Rightarrow> window_slots" where
  "registerApiHandlers w =
     w\<lparr> MessageReceived := Some M_messageReceivedHandler,
        MessagePosting := Some M_beforeMessagePostHandler,
        Closing := Some M_closingHandler \<rparr>"

text \<open>The constructor: a new dispatcher, then \<^verbatim>\<open>registerApiHandlers\<close>.\<close>

definition new_DirectAddInClient :: "window_slots \<Rightarrow> DirectAddInClient \<times> window_slots" where
  "new_DirectAddInClient w =
     (\<lparr> dispatcher = new_MulticastDispatcher, initialized = False \<rparr>, registerApiHandlers w)"

text \<open>Calling a method with a receiver and positional arguments (missing ones undefined).\<close>

fun nth_arg :: "jsval list \<Rightarrow> nat \<Rightarrow> jsval" where
  "nth_arg [] n = JUndefined"
| "nth_arg (v # vs) 0 = v"
| "nth_arg (v # vs) (Suc n) = nth_arg vs n"

fun call_method ::
  "handler_env \<Rightarrow> DirectAddInClient \<Rightarrow> direct_method \<Rightarrow> this_value \<Rightarrow> jsval list \<Rightarrow>
     (effect list \<times> (jsexn + jsval) \<times> DirectAddInClient) option" where
  "call_method run c M_messageReceivedHandler this args =
     messageReceivedHandler run c this (nth_arg args 0) (nth_arg args 1)"
| "call_method run c M_beforeMessagePostHandler this args =
     beforeMessagePostHandler run c this (nth_arg args 0)"
| "call_method run c M_closingHandler this args = closingHandler run c this"

text \<open>
  The host invokes a slot as a function of the page: \<^verbatim>\<open>window.MessagePosting(message)\<close>.
  An empty slot is not callable.
\<close>

definition host_invoke ::
  "handler_env \<Rightarrow> DirectAddInClient \<Rightarrow> direct_method option \<Rightarrow> jsval list \<Rightarrow>
     (effect list \<times> (jsexn + jsval) \<times> DirectAddInClient) option" where
  "host_invoke run c slot args =
     (case slot of
        None \<Rightarrow> Some ([], Inl TypeError, c)
      | Some m \<Rightarrow> call_method run c m ThisWindow args)"

text \<open>The registrations of the direct transport.\<close>

definition direct_addBeforeMessageSendHandler ::
  "DirectAddInClient \<Rightarrow> jsfun option \<Rightarrow> scope \<Rightarrow> (jsexn + unit) \<times> DirectAddInClient" where
  "direct_addBeforeMessageSendHandler c handler_arg scope_arg =
     (case addHandler (dispatcher c) ''beforemessagesend'' handler_arg scope_arg of
        (out, d) \<Rightarrow> (out, c\<lparr> dispatcher := d \<rparr>))"

text \<open>
  The methods that the two classes define and that the interface \<^verbatim>\<open>IAddInClient\<close>,
  which both declare to implement, requires, as the declarations list them. Calling a
  method an object does not have throws; what a method that exists does is given by its
  own definition.
\<close>

definition IAddInClient_methods :: "string list" where
  "IAddInClient_methods =
     [''getChatRoom'', ''getChatRoomAsync'', ''getLocalUserDetails'', ''getLocalUserDetailsAsync'',
      ''getDomainDetails'', ''getDomainDetailsAsync'', ''getMaxMessageLength'',
      ''getMaxMessageLengthAsync'', ''sendMessage'', ''sendMessageAsync'',
      ''addMessageReceivedHandler'', ''addBeforeMessageSendHandler'', ''addClosingHandler'']"

definition DirectAddInClient_methods :: "string list" where
  "DirectAddInClient_methods =
     [''getChatRoom'', ''getLocalUserDetails'', ''getDomainDetails'', ''getMaxMessageLength'',
      ''sendMessage'', ''addMessageReceivedHandler'', ''addBeforeMessageSendHandler'',
      ''addClosingHandler'', ''toString'', ''initialize'', ''callApiMethod'',
      ''messageReceivedHandler'', ''beforeMessagePostHandler'', ''closingHandler'',
      ''registerApiHandlers'']"

definition PostMessageAddInClient_methods :: "string list" where
  "PostMessageAddInClient_methods =
     [''getChatRoom'', ''getChatRoomAsync'', ''getLocalUserDetails'', ''getLocalUserDetailsAsync'',
      ''getDomainDetails'', ''getDomainDetailsAsync'', ''getMaxMessageLength'',
      ''getMaxMessageLengthAsync'', ''sendMessage'', ''sendMessageAsync'',
      ''addMessageReceivedHandler'', ''addBeforeMessageSendHandler'', ''addClosingHandler'',
      ''toString'', ''isApiEvent'', ''dispatchApiEvent'', ''addCallback'', ''isApiResponse'',
      ''invokeResponseCallback'', ''onMessageReceived'', ''sendApiRequest'', ''register'']"

definition call_by_name :: "string list \<Rightarrow> string \<Rightarrow> jsexn + unit" where
  "call_by_name methods name = (if name \<in> set methods then Inr () else Inl TypeError)"

section \<open>createAddInClient\<close>

text \<open>
  What the selector reads of the page. \<open>parent\<close>: \<open>None\<close> when \<^verbatim>\<open>window.parent\<close> is
  falsy, else what reading \<^verbatim>\<open>window.parent.location.href\<close> does (the browser refuses
  it across origins). \<open>external\<close> and \<open>addins\<close>: \<open>None\<close> when the global is falsy,
  else whether its \<^verbatim>\<open>GetChatRoom\<close> property is truthy.
\<close>

datatype href_read = AccessDenied | Href "string option"

record page =
  parent :: "href_read option"
  external :: "bool option"
  addins :: "bool option"

datatype client = Direct | PostMessage

text \<open>The \<^verbatim>\<open>try\<close> block: \<open>isCrossDomain\<close> starts true and the \<^verbatim>\<open>catch\<close> leaves it so.\<close>

definition isCrossDomain :: "page \<Rightarrow> bool" where
  "isCrossDomain pg =
     (case parent pg of
        None \<Rightarrow> True
      | Some AccessDenied \<Rightarrow> True
      | Some (Href parentHref) \<Rightarrow> \<not> (parentHref \<noteq> None))"

definition createAddInClient :: "page \<Rightarrow> client" where
  "createAddInClient pg =
     (if (external pg \<noteq> None \<and> the (external pg)) \<or> (addins pg \<noteq> None \<and> the (addins pg))
         \<or> \<not> isCrossDomain pg
      then Direct else PostMessage)"

section \<open>Example inputs\<close>

text \<open>
  An environment for the examples: the function \<open>Fn 0\<close> returns \<^verbatim>\<open>false\<close>, \<open>Fn 1\<close>
  returns \<^verbatim>\<open>true\<close>, \<open>Fn 2\<close> throws the string \<^verbatim>\<open>"boom"\<close>, every other function
  returns \<^verbatim>\<open>undefined\<close>.
\<close>

definition example_app :: apply_env where
  "example_app f s xs =
     (if f = Fn 0 then Inr (JBool False)
      else if f = Fn 1 then Inr (JBool True)
      else if f = Fn 2 then Inl (Thrown (JStr ''boom''))
      else Inr JUndefined)"

text \<open>The same functions as event handlers that leave the dispatcher alone.\<close>

definition quiet_run :: handler_env where
  "quiet_run f s xs d = (example_app f s xs, d)"

text \<open>
  The same again, but for three functions that act on the dispatcher: \<open>Fn 3\<close> returns
  \<^verbatim>\<open>false\<close> and registers \<open>Fn 1\<close> as a pre-send handler; \<open>Fn 4\<close> returns \<^verbatim>\<open>false\<close> and
  registers itself once more as a closing handler; \<open>Fn 7\<close> returns \<^verbatim>\<open>false\<close> and removes
  itself from the message-received handlers.
\<close>

definition example_run :: handler_env where
  "example_run f s xs d =
     (if f = Fn 3
      then (Inr (JBool False), snd (addHandler d ''beforemessagesend'' (Some (Fn 1)) None))
      else if f = Fn 4
      then (Inr (JBool False), snd (addHandler d ''closing'' (Some (Fn 4)) None))
      else if f = Fn 7
      then (Inr (JBool False), snd (removeHandler d ''messagereceived'' (Fn 7) None))
      else quiet_run f s xs d)"

text \<open>A dispatcher whose one pre-send handler is \<open>Fn 3\<close>, one whose one closing handler
  is \<open>Fn 4\<close>, and one whose message-received handlers are \<open>Fn 7\<close> and \<open>Fn 1\<close>.\<close>

definition registering_dispatcher :: MulticastDispatcher where
  "registering_dispatcher =
     snd (addHandler new_MulticastDispatcher ''beforemessagesend'' (Some (Fn 3)) None)"

definition runaway_dispatcher :: MulticastDispatcher where
  "runaway_dispatcher = snd (addHandler new_MulticastDispatcher ''closing'' (Some (Fn 4)) None)"

definition removing_dispatcher :: MulticastDispatcher where
  "removing_dispatcher =
     snd (addHandler (snd (addHandler new_MulticastDispatcher ''messagereceived'' (Some (Fn 7)) None))
            ''messagereceived'' (Some (Fn 1)) None)"

text \<open>Three pre-send handlers under distinct scopes, returning false, true, false.\<close>

definition suppressing_dispatcher :: MulticastDispatcher where
  "suppressing_dispatcher =
     snd (addHandler
       (snd (addHandler
         (snd (addHandler new_MulticastDispatcher ''beforemessagesend'' (Some (Fn 0)) (Some 10)))
         ''beforemessagesend'' (Some (Fn 1)) (Some 11)))
       ''beforemessagesend'' (Some (Fn 0)) (Some 12))"

text \<open>Three pre-send handlers that all return false.\<close>

definition permissive_dispatcher :: MulticastDispatcher where
  "permissive_dispatcher =
     snd (addHandler
       (snd (addHandler
         (snd (addHandler new_MulticastDispatcher ''beforemessagesend'' (Some (Fn 0)) (Some 10)))
         ''beforemessagesend'' (Some (Fn 0)) (Some 11)))
       ''beforemessagesend'' (Some (Fn 0)) (Some 12))"

text \<open>Two closing handlers, of which the first throws.\<close>

definition throwing_dispatcher :: MulticastDispatcher where
  "throwing_dispatcher =
     snd (addHandler
       (snd (addHandler new_MulticastDispatcher ''closing'' (Some (Fn 2)) None))
       ''closing'' (Some (Fn 1)) None)"

text \<open>Pages for the selector: a same-origin page without host globals, a cross-origin page
  whose \<^verbatim>\<open>addins\<close> global has \<^verbatim>\<open>GetChatRoom\<close>, and a cross-origin page whose
  \<^verbatim>\<open>external\<close> object lacks it.\<close>

definition same_origin_page :: page where
  "same_origin_page = \<lparr> parent = Some (Href (Some ''https://host.example/chat'')),
                         external = None, addins = None \<rparr>"

definition cross_origin_addins_page :: page where
  "cross_origin_addins_page = \<lparr> parent = Some AccessDenied, external = None, addins = Some True \<rparr>"

definition cross_origin_page :: page where
  "cross_origin_page = \<lparr> parent = Some AccessDenied, external = Some False, addins = None \<rparr>"

text \<open>A page whose slots nobody wrote, and the direct client constructed on it with one
  pre-send handler, \<open>Fn 1\<close>, which returns true.\<close>

definition no_slots :: window_slots where
  "no_slots = \<lparr> MessageReceived = None, MessagePosting = None, Closing = None \<rparr>"

definition vetoing_direct_client :: DirectAddInClient where
  "vetoing_direct_client =
     snd (direct_addBeforeMessageSendHandler (fst (new_DirectAddInClient no_slots)) (Some (Fn 1)) None)"

text \<open>
  A message client with two calls pending: \<^verbatim>\<open>getChatRoom(Fn 5, Fn 6, scope 20)\<close>, which
  gets the id \<^verbatim>\<open>cb-1\<close>, then \<^verbatim>\<open>sendMessage("hello", false, Fn 7, Fn 8)\<close>, which gets
  \<^verbatim>\<open>cb-2\<close>; and the same client once \<^verbatim>\<open>cb-1\<close> has been answered.
\<close>

definition pending_client :: PostMessageAddInClient where
  "pending_client =
     fst (sendMessage
       (fst (getChatRoom new_PostMessageAddInClient (Some (Fn 5)) (Some (Fn 6)) (Some 20)))
       ''hello'' False (Some (Fn 7)) (Some (Fn 8)) None)"

definition answered_client :: PostMessageAddInClient where
  "answered_client = pending_client\<lparr> callbacks := (callbacks pending_client)(''cb-1'' := None) \<rparr>"

text \<open>Responses: \<^verbatim>\<open>{"id":"cb-1","success":true,"result":"X"}\<close>,
  \<^verbatim>\<open>{"id":"cb-2","success":false,"result":"boom"}\<close> and
  \<^verbatim>\<open>{"id":"cb-2","success":true,"result":false}\<close>.\<close>

definition response_X :: jsval where
  "response_X = JObj [(''id'', JStr ''cb-1''), (''success'', JBool True), (''result'', JStr ''X'')]"

definition response_boom :: jsval where
  "response_boom = JObj [(''id'', JStr ''cb-2''), (''success'', JBool False), (''result'', JStr ''boom'')]"

definition response_not_sent :: jsval where
  "response_not_sent = JObj [(''id'', JStr ''cb-2''), (''success'', JBool True), (''result'', JBool False)]"

text \<open>Message clients, with the two calls pending, whose dispatchers are those of the
  examples above.\<close>

definition suppressing_client :: PostMessageAddInClient where
  "suppressing_client = pending_client\<lparr> eventDispatcher := suppressing_dispatcher \<rparr>"

definition permissive_client :: PostMessageAddInClient where
  "permissive_client = pending_client\<lparr> eventDispatcher := permissive_dispatcher \<rparr>"

definition registering_client :: PostMessageAddInClient where
  "registering_client = pending_client\<lparr> eventDispatcher := registering_dispatcher \<rparr>"

text \<open>Event envelopes \<^verbatim>\<open>{"event":{"name":"beforemessagesend","args":["hi"],"id":i}}\<close>
  for a given event id \<open>i\<close>, without and with the fields of a successful response to
  \<^verbatim>\<open>cb-1\<close> beside the event.\<close>

definition presend_event :: "jsval \<Rightarrow> jsval" where
  "presend_event i =
     JObj [(''event'', JObj [(''name'', JStr ''beforemessagesend''),
                             (''args'', JArr [JStr ''hi'']), (''id'', i)])]"

definition event_with_response_fields :: "jsval \<Rightarrow> jsval" where
  "event_with_response_fields i =
     JObj [(''event'', JObj [(''name'', JStr ''beforemessagesend''),
                             (''args'', JArr [JStr ''hi'']), (''id'', i)]),
           (''id'', JStr ''cb-1''), (''success'', JBool True), (''result'', JStr ''X'')]"

section \<open>Properties of the dispatcher\<close>

lemma removeHandler_loop_filter:
  "i \<le> length hs \<Longrightarrow>
   removeHandler_loop hs h s i =
     take i hs @ filter (\<lambda>e. \<not> (handler e = h \<and> scope e = s)) (drop i hs)"
proof (induction hs h s i rule: removeHandler_loop.induct)
  case (1 eventHandlers h s i)
  show ?case
  proof (cases "i < length eventHandlers")
    case False
    with "1.prems" show ?thesis by (subst removeHandler_loop.simps) simp
  next
    case True
    note lt = True
    have dr: "drop i eventHandlers = eventHandlers ! i # drop (Suc i) eventHandlers"
      using lt by (simp add: Cons_nth_drop_Suc)
    show ?thesis
    proof (cases "handler (eventHandlers ! i) = h \<and> scope (eventHandlers ! i) = s")
      case True
      have "removeHandler_loop eventHandlers h s i =
            removeHandler_loop (take i eventHandlers @ drop (Suc i) eventHandlers) h s i"
        using lt True by (subst removeHandler_loop.simps) simp
      also have "\<dots> = take i (take i eventHandlers @ drop (Suc i) eventHandlers) @
          filter (\<lambda>e. \<not> (handler e = h \<and> scope e = s))
            (drop i (take i eventHandlers @ drop (Suc i) eventHandlers))"
        using "1.IH"(1) [OF lt refl] lt True by simp
      also have "\<dots> = take i eventHandlers @
          filter (\<lambda>e. \<not> (handler e = h \<and> scope e = s)) (drop i eventHandlers)"
        using lt True by (simp add: dr)
      finally show ?thesis .
    next
      case False
      have "removeHandler_loop eventHandlers h s i = removeHandler_loop eventHandlers h s (Suc i)"
        using lt False by (subst removeHandler_loop.simps) auto
      also have "\<dots> = take (Suc i) eventHandlers @
          filter (\<lambda>e. \<not> (handler e = h \<and> scope e = s)) (drop (Suc i) eventHandlers)"
        using "1.IH"(2) [OF lt refl] lt False by simp
      also have "\<dots> = take i eventHandlers @
          filter (\<lambda>e. \<not> (handler e = h \<and> scope e = s)) (drop i eventHandlers)"
        using lt False by (simp add: dr take_Suc_conv_app_nth)
      finally show ?thesis .
    qed
  qed
qed

text \<open>On a registered list, \<^verbatim>\<open>removeHandler\<close> keeps, in order, the entries that differ
  from the arguments in the handler or in the scope.\<close>

lemma removeHandler_own_list:
  assumes "handlers d eventName = Some (HandlerArray hs)"
  shows "removeHandler d eventName h s =
     (Inr (), d\<lparr> handlers := (handlers d)(eventName \<mapsto>
        HandlerArray (filter (\<lambda>e. \<not> (handler e = h \<and> scope e = s)) hs)) \<rparr>)"
  using assms by (simp add: removeHandler_def getHandlers_def removeHandler_loop_filter)

text \<open>Where the lookup gives \<^verbatim>\<open>undefined\<close>, \<^verbatim>\<open>removeHandler\<close> does nothing.\<close>

lemma removeHandler_no_list:
  assumes "handlers d eventName = None" and "Object_prototype eventName = None"
  shows "removeHandler d eventName h s = (Inr (), d)"
  using assms by (simp add: removeHandler_def getHandlers_def)

text \<open>\<^verbatim>\<open>addHandler\<close> appends to a registered list, and starts one under a name that
  nothing is found under.\<close>

lemma addHandler_appends:
  assumes "handlers d eventName = Some (HandlerArray hs)"
  shows "addHandler d eventName (Some h) s =
     (Inr (), d\<lparr> handlers := (handlers d)(eventName \<mapsto>
        HandlerArray (hs @ [\<lparr> handler = h, scope = s \<rparr>])) \<rparr>)"
proof (cases "eventName = ''__proto__''")
  case True
  with assms show ?thesis
    by (simp add: addHandler_def getOrCreateHandlers_def getHandlers_def Let_def)
next
  case False
  with assms show ?thesis
    by (simp add: addHandler_def getOrCreateHandlers_def getHandlers_def Let_def)
qed

lemma addHandler_creates:
  assumes "handlers d eventName = None" and "Object_prototype eventName = None"
  shows "addHandler d eventName (Some h) s =
     (Inr (), d\<lparr> handlers := (handlers d)(eventName \<mapsto>
        HandlerArray [\<lparr> handler = h, scope = s \<rparr>]) \<rparr>)"
proof -
  from assms(2) have "eventName \<noteq> ''__proto__''"
    by (auto simp: Object_prototype_def)
  with assms show ?thesis
    by (simp add: addHandler_def getOrCreateHandlers_def getHandlers_def Let_def)
qed

text \<open>The dispatch in order: when it ends with results, every handler of the list has
  been invoked, once and in order, and there is one result for each; when it ends with
  an exception, the handlers up to the one that threw have been invoked.\<close>

lemma dispatch_in_order_returns:
  "dispatch_in_order run hs xs d = (fx, Inr rs, d') \<Longrightarrow>
   fx = map (\<lambda>h. Invoke (handler h) (scope h) xs) hs \<and> length rs = length hs"
proof (induction hs arbitrary: d fx rs)
  case Nil
  then show ?case by simp
next
  case (Cons h hs)
  then show ?case
    by (auto split: prod.splits sum.splits)
qed

lemma dispatch_in_order_throws:
  "dispatch_in_order run hs xs d = (fx, Inl e, d') \<Longrightarrow>
   \<exists>j < length hs. fx = map (\<lambda>h. Invoke (handler h) (scope h) xs) (take (Suc j) hs)"
proof (induction hs arbitrary: d fx)
  case Nil
  then show ?case by simp
next
  case (Cons h hs)
  show ?case
  proof (cases "run (handler h) (scope h) xs d")
    case (Pair r d1)
    show ?thesis
    proof (cases r)
      case (Inl e1)
      with Cons.prems Pair have "fx = [Invoke (handler h) (scope h) xs]" by simp
      then show ?thesis by (intro exI [where x = 0]) simp
    next
      case (Inr v)
      obtain fx1 r1 d2 where rest: "dispatch_in_order run hs xs d1 = (fx1, r1, d2)"
        by (cases "dispatch_in_order run hs xs d1") auto
      with Cons.prems Pair Inr obtain e1 where r1: "r1 = Inl e1"
        and fx: "fx = Invoke (handler h) (scope h) xs # fx1"
        by (cases r1) auto
      from Cons.IH [of d1 fx1] rest r1 Cons.prems Pair Inr
      obtain j where "j < length hs"
        "fx1 = map (\<lambda>h. Invoke (handler h) (scope h) xs) (take (Suc j) hs)"
        by (auto split: prod.splits sum.splits)
      with fx show ?thesis by (intro exI [where x = "Suc j"]) simp
    qed
  qed
qed

lemma dispatch_in_order_all_return:
  assumes "\<forall>h \<in> set hs. \<forall>d. \<exists>v. fst (run (handler h) (scope h) xs d) = Inr v"
  shows "\<exists>rs d'. dispatch_in_order run hs xs d = (map (\<lambda>h. Invoke (handler h) (scope h) xs) hs, Inr rs, d')
           \<and> length rs = length hs"
  using assms
proof (induction hs arbitrary: d)
  case Nil
  then show ?case by simp
next
  case (Cons h hs)
  obtain r d1 where run: "run (handler h) (scope h) xs d = (r, d1)"
    by (cases "run (handler h) (scope h) xs d") auto
  with Cons.prems obtain v where v: "r = Inr v" by (metis fst_conv list.set_intros(1))
  from Cons.IH [of d1] Cons.prems
  obtain rs d' where "dispatch_in_order run hs xs d1 =
      (map (\<lambda>h. Invoke (handler h) (scope h) xs) hs, Inr rs, d')" "length rs = length hs"
    by auto
  with run v show ?case by simp
qed

text \<open>Handlers that return a value of their own and leave the dispatcher alone.\<close>

lemma dispatch_in_order_quiet:
  assumes "\<forall>h \<in> set hs. \<forall>d. run (handler h) (scope h) xs d = (Inr (ret h), d)"
  shows "dispatch_in_order run hs xs d =
     (map (\<lambda>h. Invoke (handler h) (scope h) xs) hs, Inr (map ret hs), d)"
  using assms by (induction hs) auto

text \<open>
  The loop against the dispatch in order. If no handler of the list changes the list
  registered under the event name, the loop over the live array returns, and does what
  the dispatch in order over that list does.
\<close>

lemma callHandlers_loop_in_order:
  assumes stable: "\<forall>h \<in> set hs. \<forall>d. handlers d eventName = Some (HandlerArray hs) \<longrightarrow>
      handlers (snd (run (handler h) (scope h) xs d)) eventName = Some (HandlerArray hs)"
  shows "handlers d eventName = Some (HandlerArray hs) \<Longrightarrow> i \<le> length hs \<Longrightarrow>
    callHandlers_loop run d eventName (JArr xs) i fx rs =
      Some (case dispatch_in_order run (drop i hs) xs d of
              (fx', Inl e, d') \<Rightarrow> (fx @ fx', Inl e, d')
            | (fx', Inr rs', d') \<Rightarrow> (fx @ fx', Inr (rs @ rs'), d'))"
proof (induction "length hs - i" arbitrary: d i fx rs)
  case 0
  then have "i = length hs" by simp
  with "0.prems"(1) show ?case
    by (subst callHandlers_loop.simps) (simp add: getHandlers_def)
next
  case (Suc n)
  then have lt: "i < length hs" by simp
  have dr: "drop i hs = hs ! i # drop (Suc i) hs"
    using lt by (simp add: Cons_nth_drop_Suc)
  have mem: "hs ! i \<in> set hs" using lt by simp
  have n: "n = length hs - Suc i" using Suc.hyps(2) by simp
  obtain r d1 where run: "run (handler (hs ! i)) (scope (hs ! i)) xs d = (r, d1)"
    by (cases "run (handler (hs ! i)) (scope (hs ! i)) xs d") auto
  show ?case
  proof (cases r)
    case (Inl e)
    with run lt Suc.prems(1) show ?thesis
      by (subst callHandlers_loop.simps) (simp add: getHandlers_def dr)
  next
    case (Inr v)
    have d1: "handlers d1 eventName = Some (HandlerArray hs)"
      using stable mem Suc.prems(1) run by (metis snd_conv)
    have "callHandlers_loop run d eventName (JArr xs) i fx rs =
          callHandlers_loop run d1 eventName (JArr xs) (Suc i)
            (fx @ [Invoke (handler (hs ! i)) (scope (hs ! i)) xs]) (rs @ [v])"
      using run Inr lt Suc.prems(1)
      by (subst callHandlers_loop.simps) (simp add: getHandlers_def)
    also have "\<dots> = Some (case dispatch_in_order run (drop (Suc i) hs) xs d1 of
              (fx', Inl e, d') \<Rightarrow> ((fx @ [Invoke (handler (hs ! i)) (scope (hs ! i)) xs]) @ fx', Inl e, d')
            | (fx', Inr rs', d') \<Rightarrow>
                ((fx @ [Invoke (handler (hs ! i)) (scope (hs ! i)) xs]) @ fx', Inr ((rs @ [v]) @ rs'), d'))"
      using Suc.hyps(1) [OF n d1] lt by simp
    finally show ?thesis
      using run Inr by (simp add: dr split: prod.splits sum.splits)
  qed
qed

lemma callHandlers_in_order:
  assumes "handlers d eventName = Some (HandlerArray hs)"
    and "args = JArr xs \<or> (\<not> truthy args \<and> xs = [])"
    and "\<forall>h \<in> set hs. \<forall>d. handlers d eventName = Some (HandlerArray hs) \<longrightarrow>
      handlers (snd (run (handler h) (scope h) xs d)) eventName = Some (HandlerArray hs)"
  shows "callHandlers run d eventName args = Some (dispatch_in_order run hs xs d)"
proof -
  have "callHandlers run d eventName args = callHandlers_loop run d eventName (JArr xs) 0 [] []"
    using assms(1,2) by (auto simp: callHandlers_def getHandlers_def)
  also have "\<dots> = Some (case dispatch_in_order run (drop 0 hs) xs d of
              (fx', Inl e, d') \<Rightarrow> ([] @ fx', Inl e, d')
            | (fx', Inr rs', d') \<Rightarrow> ([] @ fx', Inr ([] @ rs'), d'))"
    by (rule callHandlers_loop_in_order [where run = run and xs = xs, OF assms(3) assms(1)]) simp
  finally show ?thesis by (simp split: prod.splits sum.splits)
qed

lemma callHandlers_no_list:
  assumes "handlers d eventName = None" and "Object_prototype eventName = None"
  shows "callHandlers run d eventName args = Some ([], Inr [], d)"
  using assms by (simp add: callHandlers_def getHandlers_def)

text \<open>The loop posts nothing, whatever the handlers do.\<close>

lemma callHandlers_loop_no_post:
  assumes "callHandlers_loop run d eventName args i fx rs = Some y"
  shows "\<forall>x. Post x \<in> set (fst y) \<longrightarrow> Post x \<in> set fx"
proof (rule callHandlers_loop.raw_induct
    [where P = "\<lambda>run d eventName args i fx rs y. \<forall>x. Post x \<in> set (fst y) \<longrightarrow> Post x \<in> set fx",
     OF _ assms], goal_cases)
  case (1 loop run d eventName args i fx rs y)
  note IH = 1(1) and body = 1(2)
  show ?case
  proof (intro allI impI)
    fix x
    assume p: "Post x \<in> set (fst y)"
    show "Post x \<in> set fx"
    proof (cases "getHandlers d eventName")
      case None
      with body p show ?thesis by auto
    next
      case (Some m)
      note m = Some
      show ?thesis
      proof (cases "case member_length m of None \<Rightarrow> False | Some n \<Rightarrow> i < n")
        case False
        with body p m show ?thesis by auto
      next
        case True
        note go = True
        show ?thesis
        proof (cases "member_elem m i")
          case None
          with body p m go show ?thesis by auto
        next
          case (Some h)
          note h = Some
          show ?thesis
          proof (cases "args_slice args")
            case None
            with body p m go h show ?thesis by auto
          next
            case (Some xs)
            note xs = Some
            obtain r d1 where run: "run (handler h) (scope h) xs d = (r, d1)"
              by (cases "run (handler h) (scope h) xs d") auto
            show ?thesis
            proof (cases r)
              case (Inl ex)
              with body p m go h xs run show ?thesis by auto
            next
              case (Inr v)
              with body m go h xs run
              have "loop run d1 eventName args (Suc i)
                      (fx @ [Invoke (handler h) (scope h) xs]) (rs @ [v]) = Some y"
                by simp
              from IH [OF this] p show ?thesis by auto
            qed
          qed
        qed
      qed
    qed
  qed
qed

lemma callHandlers_no_post:
  assumes "callHandlers run d eventName args = Some (fx, r, d')"
  shows "Post x \<notin> set fx"
proof
  assume p: "Post x \<in> set fx"
  show False
  proof (cases "getHandlers d eventName")
    case None
    with assms p show ?thesis by (simp add: callHandlers_def)
  next
    case (Some m)
    with assms have "callHandlers_loop run d eventName (if truthy args then args else JArr []) 0 [] []
        = Some (fx, r, d')"
      by (simp add: callHandlers_def)
    from callHandlers_loop_no_post [OF this] p show ?thesis by simp
  qed
qed

text \<open>With handlers that leave the dispatcher alone, every call the loop makes is a call of
  a handler registered under the event name, with the scope registered with it.\<close>

lemma callHandlers_loop_effects:
  assumes "callHandlers_loop run d eventName args i fx rs = Some y"
  shows "(\<forall>f s xs d. snd (run f s xs d) = d) \<longrightarrow>
     (\<forall>e \<in> set (fst y). e \<in> set fx \<or>
        (\<exists>hs h xs. handlers d eventName = Some (HandlerArray hs) \<and> h \<in> set hs
                       \<and> e = Invoke (handler h) (scope h) xs))"
proof (rule callHandlers_loop.raw_induct
    [where P = "\<lambda>run d eventName args i fx rs y. (\<forall>f s xs d. snd (run f s xs d) = d) \<longrightarrow>
     (\<forall>e \<in> set (fst y). e \<in> set fx \<or>
        (\<exists>hs h xs. handlers d eventName = Some (HandlerArray hs) \<and> h \<in> set hs
                       \<and> e = Invoke (handler h) (scope h) xs))",
     OF _ assms], goal_cases)
  case (1 loop run d eventName args i fx rs y)
  note IH = 1(1) and body = 1(2)
  show ?case
  proof (intro impI ballI)
    fix e
    assume quiet: "\<forall>f s xs d. snd (run f s xs d) = d" and e: "e \<in> set (fst y)"
    show "e \<in> set fx \<or>
        (\<exists>hs h xs. handlers d eventName = Some (HandlerArray hs) \<and> h \<in> set hs
                       \<and> e = Invoke (handler h) (scope h) xs)"
    proof (cases "getHandlers d eventName")
      case None
      with body e show ?thesis by auto
    next
      case (Some m)
      note m = Some
      show ?thesis
      proof (cases "case member_length m of None \<Rightarrow> False | Some n \<Rightarrow> i < n")
        case False
        with body e m show ?thesis by auto
      next
        case True
        note go = True
        show ?thesis
        proof (cases "member_elem m i")
          case None
          with body e m go show ?thesis by auto
        next
          case (Some h)
          note h = Some
          then obtain hs where hs: "m = HandlerArray hs" "h \<in> set hs"
            by (cases m) (auto split: if_splits)
          with m have own: "handlers d eventName = Some (HandlerArray hs)"
            by (auto simp: getHandlers_def Object_prototype_def split: option.splits if_splits)
          show ?thesis
          proof (cases "args_slice args")
            case None
            with body e m go h show ?thesis by auto
          next
            case (Some xs)
            note xs = Some
            obtain r d1 where run: "run (handler h) (scope h) xs d = (r, d1)"
              by (cases "run (handler h) (scope h) xs d") auto
            with quiet have d1: "d1 = d" by (metis snd_conv)
            show ?thesis
            proof (cases r)
              case (Inl ex)
              with body e m go h xs run hs own show ?thesis by auto
            next
              case (Inr v)
              with body m go h xs run d1
              have "loop run d eventName args (Suc i)
                      (fx @ [Invoke (handler h) (scope h) xs]) (rs @ [v]) = Some y"
                by simp
              from IH [OF this] quiet e
              have "e \<in> set (fx @ [Invoke (handler h) (scope h) xs]) \<or>
                (\<exists>hs h xs. handlers d eventName = Some (HandlerArray hs) \<and> h \<in> set hs
                       \<and> e = Invoke (handler h) (scope h) xs)"
                by blast
              with hs own show ?thesis by auto
            qed
          qed
        qed
      qed
    qed
  qed
qed

lemma callHandlers_effects:
  assumes "callHandlers run d eventName args = Some (fx, r, d')"
    and "\<forall>f s xs d. snd (run f s xs d) = d" and "Invoke f s xs \<in> set fx"
  shows "\<exists>hs h. handlers d eventName = Some (HandlerArray hs) \<and> h \<in> set hs
           \<and> f = handler h \<and> s = scope h"
proof (cases "getHandlers d eventName")
  case None
  with assms show ?thesis by (simp add: callHandlers_def)
next
  case (Some m)
  with assms(1) have "callHandlers_loop run d eventName (if truthy args then args else JArr []) 0 [] []
      = Some (fx, r, d')"
    by (simp add: callHandlers_def)
  from callHandlers_loop_effects [OF this] assms(2,3)
  show ?thesis by fastforce
qed

text \<open>The example dispatchers, evaluated.\<close>

lemma Object_prototype_event_names:
  "Object_prototype ''messagereceived'' = None"
  "Object_prototype ''beforemessagesend'' = None"
  "Object_prototype ''closing'' = None"
  by (simp_all add: Object_prototype_def)

lemma suppressing_dispatcher_handlers:
  "handlers suppressing_dispatcher ''beforemessagesend'' =
     Some (HandlerArray [\<lparr> handler = Fn 0, scope = Some 10 \<rparr>, \<lparr> handler = Fn 1, scope = Some 11 \<rparr>,
                         \<lparr> handler = Fn 0, scope = Some 12 \<rparr>])"
  by (simp add: suppressing_dispatcher_def addHandler_def getOrCreateHandlers_def getHandlers_def
      new_MulticastDispatcher_def Object_prototype_event_names Let_def)

lemma permissive_dispatcher_handlers:
  "handlers permissive_dispatcher ''beforemessagesend'' =
     Some (HandlerArray [\<lparr> handler = Fn 0, scope = Some 10 \<rparr>, \<lparr> handler = Fn 0, scope = Some 11 \<rparr>,
                         \<lparr> handler = Fn 0, scope = Some 12 \<rparr>])"
  by (simp add: permissive_dispatcher_def addHandler_def getOrCreateHandlers_def getHandlers_def
      new_MulticastDispatcher_def Object_prototype_event_names Let_def)

lemma throwing_dispatcher_handlers:
  "handlers throwing_dispatcher ''closing'' =
     Some (HandlerArray [\<lparr> handler = Fn 2, scope = None \<rparr>, \<lparr> handler = Fn 1, scope = None \<rparr>])"
  by (simp add: throwing_dispatcher_def addHandler_def getOrCreateHandlers_def getHandlers_def
      new_MulticastDispatcher_def Object_prototype_event_names Let_def)

lemma registering_dispatcher_eval:
  "registering_dispatcher =
     \<lparr> handlers = [''beforemessagesend'' \<mapsto> HandlerArray [\<lparr> handler = Fn 3, scope = None \<rparr>]] \<rparr>"
  by (simp add: registering_dispatcher_def addHandler_def getOrCreateHandlers_def getHandlers_def
      new_MulticastDispatcher_def Object_prototype_event_names Let_def)

lemma runaway_dispatcher_handlers:
  "handlers runaway_dispatcher ''closing'' = Some (HandlerArray [\<lparr> handler = Fn 4, scope = None \<rparr>])"
  by (simp add: runaway_dispatcher_def addHandler_def getOrCreateHandlers_def getHandlers_def
      new_MulticastDispatcher_def Object_prototype_event_names Let_def)

text \<open>The example handlers \<open>Fn 0\<close>, \<open>Fn 1\<close> and \<open>Fn 2\<close> leave the dispatcher as it is.\<close>

lemma example_run_quiet:
  "f = Fn 0 \<or> f = Fn 1 \<or> f = Fn 2 \<Longrightarrow> example_run f s xs d = (example_app f s xs, d)"
  by (auto simp: example_run_def quiet_run_def)

text \<open>
  The loop runs over the live array. The one pre-send handler \<open>Fn 3\<close> registers \<open>Fn 1\<close>
  while it runs, and \<open>Fn 1\<close> is invoked in the same pass: two calls and two results from
  a list that had one entry when the dispatch began.
\<close>

lemma callHandlers_runs_handler_added_during_dispatch:
  "callHandlers example_run registering_dispatcher ''beforemessagesend'' (JArr [JStr ''hi'']) =
     Some ([Invoke (Fn 3) None [JStr ''hi''], Invoke (Fn 1) None [JStr ''hi'']],
           Inr [JBool False, JBool True],
           \<lparr> handlers = [''beforemessagesend'' \<mapsto>
               HandlerArray [\<lparr> handler = Fn 3, scope = None \<rparr>, \<lparr> handler = Fn 1, scope = None \<rparr>]] \<rparr>)"
  apply (simp add: callHandlers_def registering_dispatcher_eval getHandlers_def)
  apply (subst callHandlers_loop.simps)
  apply (simp add: getHandlers_def example_run_def quiet_run_def example_app_def addHandler_def
      getOrCreateHandlers_def Object_prototype_event_names Let_def)
  apply (subst callHandlers_loop.simps)
  apply (simp add: getHandlers_def example_run_def quiet_run_def example_app_def)
  apply (subst callHandlers_loop.simps)
  apply (simp add: getHandlers_def)
  done

text \<open>
  A handler removed while the dispatch runs shifts the entries after it under the
  running index. The first message-received handler \<open>Fn 7\<close> removes itself, \<open>Fn 1\<close> moves
  to position 0, and the loop, now at index 1, ends without calling it.
\<close>

lemma removing_dispatcher_eval:
  "removing_dispatcher =
     \<lparr> handlers = [''messagereceived'' \<mapsto>
         HandlerArray [\<lparr> handler = Fn 7, scope = None \<rparr>, \<lparr> handler = Fn 1, scope = None \<rparr>]] \<rparr>"
  by (simp add: removing_dispatcher_def addHandler_def getOrCreateHandlers_def getHandlers_def
      new_MulticastDispatcher_def Object_prototype_event_names Let_def)

lemma callHandlers_skips_handler_after_removal:
  "callHandlers example_run removing_dispatcher ''messagereceived'' (JArr [JStr ''hi'', JStr ''u'']) =
     Some ([Invoke (Fn 7) None [JStr ''hi'', JStr ''u'']],
           Inr [JBool False],
           \<lparr> handlers = [''messagereceived'' \<mapsto> HandlerArray [\<lparr> handler = Fn 1, scope = None \<rparr>]] \<rparr>)"
proof -
  let ?d = "\<lparr> handlers = [''messagereceived'' \<mapsto>
         HandlerArray [\<lparr> handler = Fn 7, scope = None \<rparr>, \<lparr> handler = Fn 1, scope = None \<rparr>]] \<rparr>"
  let ?d' = "\<lparr> handlers = [''messagereceived'' \<mapsto> HandlerArray [\<lparr> handler = Fn 1, scope = None \<rparr>]] \<rparr>"
  have own: "handlers ?d ''messagereceived'' =
      Some (HandlerArray [\<lparr> handler = Fn 7, scope = None \<rparr>, \<lparr> handler = Fn 1, scope = None \<rparr>])"
    by simp
  have rem: "snd (removeHandler ?d ''messagereceived'' (Fn 7) None) = ?d'"
    unfolding removeHandler_own_list [OF own] by simp
  have run7: "example_run (Fn 7) None [JStr ''hi'', JStr ''u''] ?d = (Inr (JBool False), ?d')"
    using rem by (simp add: example_run_def)
  have "callHandlers example_run ?d ''messagereceived'' (JArr [JStr ''hi'', JStr ''u'']) =
      callHandlers_loop example_run ?d ''messagereceived'' (JArr [JStr ''hi'', JStr ''u'']) 0 [] []"
    by (simp add: callHandlers_def getHandlers_def)
  also have "\<dots> = callHandlers_loop example_run ?d' ''messagereceived''
      (JArr [JStr ''hi'', JStr ''u'']) (Suc 0) [Invoke (Fn 7) None [JStr ''hi'', JStr ''u'']] [JBool False]"
    using run7 by (subst callHandlers_loop.simps) (simp add: getHandlers_def)
  also have "\<dots> = Some ([Invoke (Fn 7) None [JStr ''hi'', JStr ''u'']], Inr [JBool False], ?d')"
    by (subst callHandlers_loop.simps) (simp add: getHandlers_def)
  finally show ?thesis by (simp add: removing_dispatcher_eval)
qed

text \<open>
  A dispatch need not return. The closing handler \<open>Fn 4\<close> registers itself once more
  each time it runs, so the index never reaches the length of the array.
\<close>

lemma runaway_loop:
  assumes "callHandlers_loop run d eventName args i fx rs = Some y"
  shows "run = example_run \<and> eventName = ''closing'' \<and> args = JArr [] \<longrightarrow>
     \<not> (\<exists>k. i \<le> k \<and> handlers d ''closing'' =
            Some (HandlerArray (replicate (Suc k) \<lparr> handler = Fn 4, scope = None \<rparr>)))"
proof (rule callHandlers_loop.raw_induct
    [where P = "\<lambda>run d eventName args i fx rs y.
       run = example_run \<and> eventName = ''closing'' \<and> args = JArr [] \<longrightarrow>
       \<not> (\<exists>k. i \<le> k \<and> handlers d ''closing'' =
            Some (HandlerArray (replicate (Suc k) \<lparr> handler = Fn 4, scope = None \<rparr>)))",
     OF _ assms], goal_cases)
  case (1 loop run d eventName args i fx rs y)
  note IH = 1(1) and body = 1(2)
  let ?h = "\<lparr> handler = Fn 4, scope = None \<rparr>"
  let ?d1 = "snd (addHandler d ''closing'' (Some (Fn 4)) None)"
  show ?case
  proof (intro impI notI)
    assume eq: "run = example_run \<and> eventName = ''closing'' \<and> args = JArr []"
    assume "\<exists>k. i \<le> k \<and> handlers d ''closing'' = Some (HandlerArray (replicate (Suc k) ?h))"
    then obtain k where k: "i \<le> k"
      "handlers d ''closing'' = Some (HandlerArray (replicate (Suc k) ?h))"
      by blast
    have el: "replicate (Suc k) ?h ! i = ?h" using k(1) by (simp del: replicate_Suc)
    have app: "replicate (Suc k) ?h @ [?h] = replicate (Suc (Suc k)) ?h"
      by (simp add: replicate_append_same)
    have d1: "handlers ?d1 ''closing'' = Some (HandlerArray (replicate (Suc (Suc k)) ?h))"
      unfolding addHandler_appends [OF k(2), of "Fn 4" None] app by simp
    have step: "loop example_run ?d1 ''closing'' (JArr []) (Suc i)
                 (fx @ [Invoke (Fn 4) None []]) (rs @ [JBool False]) = Some y"
      using body eq k el
      by (simp add: getHandlers_def example_run_def quiet_run_def del: replicate_Suc)
    have "\<exists>k'. Suc i \<le> k' \<and> handlers ?d1 ''closing'' = Some (HandlerArray (replicate (Suc k') ?h))"
      using k(1) d1 by (intro exI [where x = "Suc k"]) simp
    with IH [OF step] show False by blast
  qed
qed

lemma callHandlers_may_not_return:
  "callHandlers example_run runaway_dispatcher ''closing'' (JArr []) = None"
proof (cases "callHandlers example_run runaway_dispatcher ''closing'' (JArr [])")
  case None
  then show ?thesis .
next
  case (Some y)
  then have run: "callHandlers_loop example_run runaway_dispatcher ''closing'' (JArr []) 0 [] [] = Some y"
    by (simp add: callHandlers_def getHandlers_def runaway_dispatcher_handlers)
  have "\<exists>k. (0::nat) \<le> k \<and> handlers runaway_dispatcher ''closing'' =
          Some (HandlerArray (replicate (Suc k) \<lparr> handler = Fn 4, scope = None \<rparr>))"
    by (intro exI [where x = 0]) (simp add: runaway_dispatcher_handlers)
  with runaway_loop [OF run] show ?thesis by simp
qed

text \<open>Under a name that finds an inherited function with parameters, the other two
  operations of the dispatcher throw as well.\<close>

lemma callHandlers_loop_inherited_name_throws:
  "callHandlers_loop run new_MulticastDispatcher ''constructor'' args 0 fx rs =
     Some (fx, Inl TypeError, new_MulticastDispatcher)"
  by (subst callHandlers_loop.simps)
    (simp add: getHandlers_def new_MulticastDispatcher_def Object_prototype_def)

lemma callHandlers_inherited_name_throws:
  "callHandlers run new_MulticastDispatcher ''constructor'' args =
     Some ([], Inl TypeError, new_MulticastDispatcher)"
proof -
  have "getHandlers new_MulticastDispatcher ''constructor'' = Some (BuiltinFunction 1)"
    by (simp add: getHandlers_def new_MulticastDispatcher_def Object_prototype_def)
  then show ?thesis
    by (simp only: callHandlers_def Let_def option.case callHandlers_loop_inherited_name_throws)
qed

lemma addHandler_inherited_name_throws:
  "fst (addHandler new_MulticastDispatcher ''constructor'' (Some h) s) = Inl TypeError"
  by (simp add: addHandler_def getOrCreateHandlers_def getHandlers_def new_MulticastDispatcher_def
      Object_prototype_def Let_def)

text \<open>Handlers that leave the dispatcher alone leave it so through a whole dispatch.\<close>

lemma callHandlers_loop_quiet:
  assumes "callHandlers_loop run d eventName args i fx rs = Some y"
  shows "(\<forall>f s xs d. snd (run f s xs d) = d) \<longrightarrow> snd (snd y) = d"
proof (rule callHandlers_loop.raw_induct
    [where P = "\<lambda>run d eventName args i fx rs y.
       (\<forall>f s xs d. snd (run f s xs d) = d) \<longrightarrow> snd (snd y) = d",
     OF _ assms], goal_cases)
  case (1 loop run d eventName args i fx rs y)
  note IH = 1(1) and body = 1(2)
  show ?case
  proof (intro impI)
    assume quiet: "\<forall>f s xs d. snd (run f s xs d) = d"
    show "snd (snd y) = d"
    proof (cases "getHandlers d eventName")
      case None
      with body show ?thesis by auto
    next
      case (Some m)
      note m = Some
      show ?thesis
      proof (cases "case member_length m of None \<Rightarrow> False | Some n \<Rightarrow> i < n")
        case False
        with body m show ?thesis by auto
      next
        case True
        note go = True
        show ?thesis
        proof (cases "member_elem m i")
          case None
          with body m go show ?thesis by auto
        next
          case (Some h)
          note h = Some
          show ?thesis
          proof (cases "args_slice args")
            case None
            with body m go h show ?thesis by auto
          next
            case (Some xs)
            note xs = Some
            obtain r d1 where run: "run (handler h) (scope h) xs d = (r, d1)"
              by (cases "run (handler h) (scope h) xs d") auto
            with quiet have d1: "d1 = d" by (metis snd_conv)
            show ?thesis
            proof (cases r)
              case (Inl ex)
              with body m go h xs run d1 show ?thesis by auto
            next
              case (Inr v)
              with body m go h xs run d1
              have "loop run d eventName args (Suc i)
                      (fx @ [Invoke (handler h) (scope h) xs]) (rs @ [v]) = Some y"
                by simp
              from IH [OF this] quiet show ?thesis by blast
            qed
          qed
        qed
      qed
    qed
  qed
qed

lemma callHandlers_quiet:
  assumes "callHandlers run d eventName args = Some (fx, r, d')"
    and "\<forall>f s xs d. snd (run f s xs d) = d"
  shows "d' = d"
proof (cases "getHandlers d eventName")
  case None
  with assms show ?thesis by (simp add: callHandlers_def)
next
  case (Some m)
  with assms(1) have "callHandlers_loop run d eventName (if truthy args then args else JArr []) 0 [] []
      = Some (fx, r, d')"
    by (simp add: callHandlers_def)
  from callHandlers_loop_quiet [OF this] assms(2) show ?thesis by simp
qed

lemma dispatch_in_order_throws_at:
  assumes "j < length hs"
    and "\<forall>k < j. \<forall>d. \<exists>v. fst (run (handler (hs ! k)) (scope (hs ! k)) xs d) = Inr v"
    and "\<forall>d. fst (run (handler (hs ! j)) (scope (hs ! j)) xs d) = Inl e"
  shows "\<exists>d'. dispatch_in_order run hs xs d =
           (map (\<lambda>h. Invoke (handler h) (scope h) xs) (take (Suc j) hs), Inl e, d')"
  using assms
proof (induction hs arbitrary: j d)
  case Nil
  then show ?case by simp
next
  case (Cons h hs)
  obtain r d1 where run: "run (handler h) (scope h) xs d = (r, d1)"
    by (cases "run (handler h) (scope h) xs d") auto
  show ?case
  proof (cases j)
    case 0
    with Cons.prems(3) run have "r = Inl e" by (metis fst_conv nth_Cons_0)
    with run 0 show ?thesis by simp
  next
    case (Suc j')
    from Cons.prems(2) Suc have "\<forall>d. \<exists>v. fst (run (handler h) (scope h) xs d) = Inr v"
      by (metis nth_Cons_0 zero_less_Suc)
    with run obtain v where v: "r = Inr v" by (metis fst_conv)
    have p1: "j' < length hs" using Cons.prems(1) Suc by simp
    have p2: "\<forall>k < j'. \<forall>d. \<exists>v. fst (run (handler (hs ! k)) (scope (hs ! k)) xs d) = Inr v"
    proof (intro allI impI)
      fix k d assume "k < j'"
      then have "Suc k < j" using Suc by simp
      with Cons.prems(2) have "\<exists>v. fst (run (handler ((h # hs) ! Suc k)) (scope ((h # hs) ! Suc k)) xs d) = Inr v"
        by blast
      then show "\<exists>v. fst (run (handler (hs ! k)) (scope (hs ! k)) xs d) = Inr v" by simp
    qed
    have p3: "\<forall>d. fst (run (handler (hs ! j')) (scope (hs ! j')) xs d) = Inl e"
      using Cons.prems(3) Suc by simp
    from Cons.IH [OF p1 p2 p3, of d1]
    obtain d' where "dispatch_in_order run hs xs d1 =
        (map (\<lambda>h. Invoke (handler h) (scope h) xs) (take (Suc j') hs), Inl e, d')"
      by blast
    with run v Suc show ?thesis by simp
  qed
qed

subsection \<open>Claim C9: removeHandler\<close>

text \<open>
  Claim C9 says that \<^verbatim>\<open>removeHandler(eventName, handler, scope)\<close> removes exactly the
  entries of the named list whose handler and scope are both the arguments, and is a
  no-op, not an error, when no list exists for the event or no entry matches.
  On a registered list the code does so (\<open>removeHandler_own_list\<close>), and under a name
  whose lookup is undefined it does nothing (\<open>removeHandler_no_list\<close>). But no list
  exists for the event name \<^verbatim>\<open>constructor\<close> on a new dispatcher, and there the call
  throws: the lookup finds the inherited \<^verbatim>\<open>Object\<close> function, whose \<^verbatim>\<open>length\<close> is 1,
  and the first iteration reads \<^verbatim>\<open>.handler\<close> of its undefined element 0.
\<close>

theorem removeHandler_inherited_name_throws:
  "removeHandler new_MulticastDispatcher ''constructor'' (Fn 0) None
     = (Inl TypeError, new_MulticastDispatcher)"
  by (simp add: removeHandler_def getHandlers_def new_MulticastDispatcher_def Object_prototype_def)

subsection \<open>Claim C4: callHandlers\<close>

text \<open>
  Claim C4, as amended. For an argument list \<open>xs\<close> (passed as an array, or the empty
  list when \<^verbatim>\<open>args\<close> is falsy): \<^verbatim>\<open>callHandlers\<close> returns the empty sequence and calls
  nothing when nothing is found under the event name. On a list \<open>hs\<close> registered under
  the event name, and provided that no handler of the list changes the list registered
  under that name while the dispatch runs, \<^verbatim>\<open>callHandlers\<close> returns, and does what the
  dispatch in order over \<open>hs\<close> does: if every handler returns, each handler has been
  invoked exactly once, in registration order, with its own scope and the argument
  list, and there is one return value for each, in that order; and when the handler at
  position \<open>j\<close> is the first that throws, exactly the handlers up to and including it
  have been invoked, in order, and the exception leaves \<^verbatim>\<open>callHandlers\<close> in place of a
  result. With handlers that leave the dispatcher alone, the sequence returned is that
  of their return values. (Without the proviso the loop follows the array as the
  handlers leave it: see \<open>callHandlers_runs_handler_added_during_dispatch\<close>,
  \<open>callHandlers_skips_handler_after_removal\<close> and \<open>callHandlers_may_not_return\<close>.)
\<close>

theorem callHandlers_dispatch:
  assumes "args = JArr xs \<or> (\<not> truthy args \<and> xs = [])"
  shows "(handlers d eventName = None \<and> Object_prototype eventName = None \<longrightarrow>
            callHandlers run d eventName args = Some ([], Inr [], d))
       \<and> (handlers d eventName = Some (HandlerArray hs) \<and>
            (\<forall>h \<in> set hs. \<forall>d. handlers d eventName = Some (HandlerArray hs) \<longrightarrow>
               handlers (snd (run (handler h) (scope h) xs d)) eventName = Some (HandlerArray hs)) \<longrightarrow>
            callHandlers run d eventName args = Some (dispatch_in_order run hs xs d)
            \<and> ((\<forall>h \<in> set hs. \<forall>d. \<exists>v. fst (run (handler h) (scope h) xs d) = Inr v) \<longrightarrow>
                 (\<exists>rs d'. callHandlers run d eventName args =
                      Some (map (\<lambda>h. Invoke (handler h) (scope h) xs) hs, Inr rs, d')
                    \<and> length rs = length hs))
            \<and> (j < length hs \<and>
                (\<forall>k < j. \<forall>d. \<exists>v. fst (run (handler (hs ! k)) (scope (hs ! k)) xs d) = Inr v) \<and>
                (\<forall>d. fst (run (handler (hs ! j)) (scope (hs ! j)) xs d) = Inl e) \<longrightarrow>
                 (\<exists>d'. callHandlers run d eventName args =
                      Some (map (\<lambda>h. Invoke (handler h) (scope h) xs) (take (Suc j) hs), Inl e, d'))))
       \<and> (handlers d eventName = Some (HandlerArray hs) \<and>
            (\<forall>h \<in> set hs. \<forall>d. run (handler h) (scope h) xs d = (Inr (ret h), d)) \<longrightarrow>
            callHandlers run d eventName args =
              Some (map (\<lambda>h. Invoke (handler h) (scope h) xs) hs, Inr (map ret hs), d))"
proof (intro conjI impI)
  assume "handlers d eventName = None \<and> Object_prototype eventName = None"
  then show "callHandlers run d eventName args = Some ([], Inr [], d)"
    by (simp add: callHandlers_no_list)
next
  assume a: "handlers d eventName = Some (HandlerArray hs) \<and>
            (\<forall>h \<in> set hs. \<forall>d. handlers d eventName = Some (HandlerArray hs) \<longrightarrow>
               handlers (snd (run (handler h) (scope h) xs d)) eventName = Some (HandlerArray hs))"
  show "callHandlers run d eventName args = Some (dispatch_in_order run hs xs d)"
    by (rule callHandlers_in_order [where run = run and xs = xs, OF conjunct1 [OF a] assms conjunct2 [OF a]])
next
  assume a: "handlers d eventName = Some (HandlerArray hs) \<and>
            (\<forall>h \<in> set hs. \<forall>d. handlers d eventName = Some (HandlerArray hs) \<longrightarrow>
               handlers (snd (run (handler h) (scope h) xs d)) eventName = Some (HandlerArray hs))"
    and b: "\<forall>h \<in> set hs. \<forall>d. \<exists>v. fst (run (handler h) (scope h) xs d) = Inr v"
  have eq: "callHandlers run d eventName args = Some (dispatch_in_order run hs xs d)"
    by (rule callHandlers_in_order [where run = run and xs = xs, OF conjunct1 [OF a] assms conjunct2 [OF a]])
  from dispatch_in_order_all_return [where run = run and xs = xs and d = d, OF b]
  obtain rs d' where "dispatch_in_order run hs xs d =
       (map (\<lambda>h. Invoke (handler h) (scope h) xs) hs, Inr rs, d')" "length rs = length hs"
    by blast
  with eq show "\<exists>rs d'. callHandlers run d eventName args =
                      Some (map (\<lambda>h. Invoke (handler h) (scope h) xs) hs, Inr rs, d')
                    \<and> length rs = length hs"
    by simp
next
  assume a: "handlers d eventName = Some (HandlerArray hs) \<and>
            (\<forall>h \<in> set hs. \<forall>d. handlers d eventName = Some (HandlerArray hs) \<longrightarrow>
               handlers (snd (run (handler h) (scope h) xs d)) eventName = Some (HandlerArray hs))"
    and b: "j < length hs \<and>
                (\<forall>k < j. \<forall>d. \<exists>v. fst (run (handler (hs ! k)) (scope (hs ! k)) xs d) = Inr v) \<and>
                (\<forall>d. fst (run (handler (hs ! j)) (scope (hs ! j)) xs d) = Inl e)"
  have eq: "callHandlers run d eventName args = Some (dispatch_in_order run hs xs d)"
    by (rule callHandlers_in_order [where run = run and xs = xs, OF conjunct1 [OF a] assms conjunct2 [OF a]])
  from b have b1: "j < length hs"
    and b2: "\<forall>k < j. \<forall>d. \<exists>v. fst (run (handler (hs ! k)) (scope (hs ! k)) xs d) = Inr v"
    and b3: "\<forall>d. fst (run (handler (hs ! j)) (scope (hs ! j)) xs d) = Inl e"
    by simp_all
  from dispatch_in_order_throws_at [where run = run and xs = xs and d = d, OF b1 b2 b3]
  obtain d' where "dispatch_in_order run hs xs d =
       (map (\<lambda>h. Invoke (handler h) (scope h) xs) (take (Suc j) hs), Inl e, d')"
    by blast
  with eq show "\<exists>d'. callHandlers run d eventName args =
                      Some (map (\<lambda>h. Invoke (handler h) (scope h) xs) (take (Suc j) hs), Inl e, d')"
    by simp
next
  assume a: "handlers d eventName = Some (HandlerArray hs) \<and>
            (\<forall>h \<in> set hs. \<forall>d. run (handler h) (scope h) xs d = (Inr (ret h), d))"
  then have own: "handlers d eventName = Some (HandlerArray hs)"
    and quiet: "\<forall>h \<in> set hs. \<forall>d. run (handler h) (scope h) xs d = (Inr (ret h), d)"
    by simp_all
  have stable: "\<forall>h \<in> set hs. \<forall>d. handlers d eventName = Some (HandlerArray hs) \<longrightarrow>
               handlers (snd (run (handler h) (scope h) xs d)) eventName = Some (HandlerArray hs)"
    using quiet by simp
  have "callHandlers run d eventName args = Some (dispatch_in_order run hs xs d)"
    by (rule callHandlers_in_order [where run = run and xs = xs, OF own assms stable])
  also have "dispatch_in_order run hs xs d =
      (map (\<lambda>h. Invoke (handler h) (scope h) xs) hs, Inr (map ret hs), d)"
    by (rule dispatch_in_order_quiet [where run = run and xs = xs, OF quiet])
  finally show "callHandlers run d eventName args =
              Some (map (\<lambda>h. Invoke (handler h) (scope h) xs) hs, Inr (map ret hs), d)" .
qed

text \<open>
  The cases of C4 at concrete inputs: a new dispatcher; three handlers registered under
  distinct scopes that return false, true, false and leave the dispatcher alone; two
  handlers of which the first throws.
\<close>

theorem callHandlers_dispatch_witness:
  "callHandlers example_run new_MulticastDispatcher ''closing'' JUndefined =
       Some ([], Inr [], new_MulticastDispatcher)
   \<and> callHandlers example_run suppressing_dispatcher ''beforemessagesend'' (JArr [JStr ''hi'']) =
       Some ([Invoke (Fn 0) (Some 10) [JStr ''hi''], Invoke (Fn 1) (Some 11) [JStr ''hi''],
              Invoke (Fn 0) (Some 12) [JStr ''hi'']],
             Inr [JBool False, JBool True, JBool False], suppressing_dispatcher)
   \<and> callHandlers example_run suppressing_dispatcher ''beforemessagesend'' (JArr [JStr ''hi'']) =
       Some (dispatch_in_order example_run
               [\<lparr> handler = Fn 0, scope = Some 10 \<rparr>, \<lparr> handler = Fn 1, scope = Some 11 \<rparr>,
                \<lparr> handler = Fn 0, scope = Some 12 \<rparr>] [JStr ''hi''] suppressing_dispatcher)
   \<and> (\<exists>rs d'. callHandlers example_run suppressing_dispatcher ''beforemessagesend'' (JArr [JStr ''hi'']) =
         Some ([Invoke (Fn 0) (Some 10) [JStr ''hi''], Invoke (Fn 1) (Some 11) [JStr ''hi''],
                Invoke (Fn 0) (Some 12) [JStr ''hi'']], Inr rs, d') \<and> length rs = 3)
   \<and> (\<exists>d'. callHandlers example_run throwing_dispatcher ''closing'' (JArr []) =
         Some ([Invoke (Fn 2) None []], Inl (Thrown (JStr ''boom'')), d'))"
proof -
  let ?hs2 = "[\<lparr> handler = Fn 0, scope = Some 10 \<rparr>, \<lparr> handler = Fn 1, scope = Some 11 \<rparr>,
               \<lparr> handler = Fn 0, scope = Some 12 \<rparr>]"
  let ?hs3 = "[\<lparr> handler = Fn 2, scope = None \<rparr>, \<lparr> handler = Fn 1, scope = None \<rparr>]"
  let ?ret = "\<lambda>h. projr (example_app (handler h) (scope h) [JStr ''hi''])"
  have a1: "JUndefined = JArr [] \<or> (\<not> truthy JUndefined \<and> ([]::jsval list) = [])" by simp
  have h1: "handlers new_MulticastDispatcher ''closing'' = None \<and> Object_prototype ''closing'' = None"
    by (simp add: new_MulticastDispatcher_def Object_prototype_event_names)
  have a2: "JArr [JStr ''hi''] = JArr [JStr ''hi''] \<or> (\<not> truthy (JArr [JStr ''hi'']) \<and> [JStr ''hi''] = [])"
    by simp
  have own2: "handlers suppressing_dispatcher ''beforemessagesend'' = Some (HandlerArray ?hs2)"
    by (rule suppressing_dispatcher_handlers)
  have quiet2: "\<forall>h \<in> set ?hs2. \<forall>d. example_run (handler h) (scope h) [JStr ''hi''] d = (Inr (?ret h), d)"
    by (simp add: example_run_def quiet_run_def example_app_def)
  have stable2: "\<forall>h \<in> set ?hs2. \<forall>d. handlers d ''beforemessagesend'' = Some (HandlerArray ?hs2) \<longrightarrow>
      handlers (snd (example_run (handler h) (scope h) [JStr ''hi''] d)) ''beforemessagesend'' =
        Some (HandlerArray ?hs2)"
    by (simp add: example_run_def quiet_run_def)
  have ret2: "\<forall>h \<in> set ?hs2. \<forall>d. \<exists>v. fst (example_run (handler h) (scope h) [JStr ''hi''] d) = Inr v"
    by (simp add: example_run_def quiet_run_def example_app_def)
  have a3: "JArr [] = JArr [] \<or> (\<not> truthy (JArr []) \<and> ([]::jsval list) = [])" by simp
  have own3: "handlers throwing_dispatcher ''closing'' = Some (HandlerArray ?hs3)"
    by (rule throwing_dispatcher_handlers)
  have stable3: "\<forall>h \<in> set ?hs3. \<forall>d. handlers d ''closing'' = Some (HandlerArray ?hs3) \<longrightarrow>
      handlers (snd (example_run (handler h) (scope h) [] d)) ''closing'' = Some (HandlerArray ?hs3)"
    by (simp add: example_run_def quiet_run_def)
  have throw3: "0 < length ?hs3 \<and>
      (\<forall>k < (0::nat). \<forall>d. \<exists>v. fst (example_run (handler (?hs3 ! k)) (scope (?hs3 ! k)) [] d) = Inr v) \<and>
      (\<forall>d. fst (example_run (handler (?hs3 ! 0)) (scope (?hs3 ! 0)) [] d) = Inl (Thrown (JStr ''boom'')))"
    by (simp add: example_run_def quiet_run_def example_app_def)
  from callHandlers_dispatch [OF a1, where d = new_MulticastDispatcher and eventName = "''closing''"
      and run = example_run] h1
  have c1: "callHandlers example_run new_MulticastDispatcher ''closing'' JUndefined =
       Some ([], Inr [], new_MulticastDispatcher)"
    by blast
  note t2 = callHandlers_dispatch [OF a2, where d = suppressing_dispatcher
      and eventName = "''beforemessagesend''" and run = example_run and hs = ?hs2 and ret = ?ret]
  from t2 own2 quiet2
  have c2: "callHandlers example_run suppressing_dispatcher ''beforemessagesend'' (JArr [JStr ''hi'']) =
       Some (map (\<lambda>h. Invoke (handler h) (scope h) [JStr ''hi'']) ?hs2, Inr (map ?ret ?hs2),
             suppressing_dispatcher)"
    by blast
  from t2 own2 stable2
  have c3: "callHandlers example_run suppressing_dispatcher ''beforemessagesend'' (JArr [JStr ''hi'']) =
       Some (dispatch_in_order example_run ?hs2 [JStr ''hi''] suppressing_dispatcher)"
    by blast
  from t2 own2 stable2 ret2
  have c4: "\<exists>rs d'. callHandlers example_run suppressing_dispatcher ''beforemessagesend'' (JArr [JStr ''hi'']) =
         Some (map (\<lambda>h. Invoke (handler h) (scope h) [JStr ''hi'']) ?hs2, Inr rs, d')
       \<and> length rs = length ?hs2"
    by blast
  from callHandlers_dispatch [OF a3, where d = throwing_dispatcher and eventName = "''closing''"
      and run = example_run and hs = ?hs3 and j = 0 and e = "Thrown (JStr ''boom'')"] own3 stable3 throw3
  have c5: "\<exists>d'. callHandlers example_run throwing_dispatcher ''closing'' (JArr []) =
         Some (map (\<lambda>h. Invoke (handler h) (scope h) []) (take (Suc 0) ?hs3),
               Inl (Thrown (JStr ''boom'')), d')"
    by blast
  have r1: "map (\<lambda>h. Invoke (handler h) (scope h) [JStr ''hi'']) ?hs2 =
      [Invoke (Fn 0) (Some 10) [JStr ''hi''], Invoke (Fn 1) (Some 11) [JStr ''hi''],
       Invoke (Fn 0) (Some 12) [JStr ''hi'']]"
    by simp
  have r2: "map ?ret ?hs2 = [JBool False, JBool True, JBool False]"
    by (simp add: example_app_def)
  have r3: "map (\<lambda>h. Invoke (handler h) (scope h) []) (take (Suc 0) ?hs3) = [Invoke (Fn 2) None []]"
    by simp
  have r4: "length ?hs2 = 3" by simp
  from c2 have c2': "callHandlers example_run suppressing_dispatcher ''beforemessagesend'' (JArr [JStr ''hi'']) =
       Some ([Invoke (Fn 0) (Some 10) [JStr ''hi''], Invoke (Fn 1) (Some 11) [JStr ''hi''],
              Invoke (Fn 0) (Some 12) [JStr ''hi'']],
             Inr [JBool False, JBool True, JBool False], suppressing_dispatcher)"
    unfolding r1 r2 .
  from c4 have c4': "\<exists>rs d'. callHandlers example_run suppressing_dispatcher ''beforemessagesend'' (JArr [JStr ''hi'']) =
         Some ([Invoke (Fn 0) (Some 10) [JStr ''hi''], Invoke (Fn 1) (Some 11) [JStr ''hi''],
                Invoke (Fn 0) (Some 12) [JStr ''hi'']], Inr rs, d') \<and> length rs = 3"
    unfolding r1 r4 .
  from c5 have c5': "\<exists>d'. callHandlers example_run throwing_dispatcher ''closing'' (JArr []) =
         Some ([Invoke (Fn 2) None []], Inl (Thrown (JStr ''boom'')), d')"
    unfolding r3 .
  from c1 c2' c3 c4' c5' show ?thesis by (intro conjI)
qed

text \<open>
  Claim C4 as stated fails: it promises that every registered handler is invoked
  exactly once and that the sequence of return values is returned. With the two closing
  handlers \<open>Fn 2\<close> (which throws) and \<open>Fn 1\<close> registered in that order, only \<open>Fn 2\<close> is
  invoked and no sequence is returned.
\<close>

theorem callHandlers_stops_at_throw:
  "callHandlers example_run throwing_dispatcher ''closing'' (JArr []) =
       Some ([Invoke (Fn 2) None []], Inl (Thrown (JStr ''boom'')), throwing_dispatcher)"
proof -
  have "callHandlers example_run throwing_dispatcher ''closing'' (JArr []) =
      callHandlers_loop example_run throwing_dispatcher ''closing'' (JArr []) 0 [] []"
    by (simp add: callHandlers_def getHandlers_def throwing_dispatcher_handlers)
  also have "\<dots> = Some ([Invoke (Fn 2) None []], Inl (Thrown (JStr ''boom'')), throwing_dispatcher)"
    by (subst callHandlers_loop.simps)
       (simp add: getHandlers_def throwing_dispatcher_handlers example_run_def quiet_run_def example_app_def)
  finally show ?thesis .
qed

section \<open>Properties of the selector\<close>

lemma isCrossDomain_iff:
  "isCrossDomain pg \<longleftrightarrow> \<not> (\<exists>href. parent pg = Some (Href (Some href)))"
  by (auto simp: isCrossDomain_def split: option.splits href_read.splits)

subsection \<open>Claim C7: the transport selector\<close>

text \<open>
  Claim C7, as amended. For every page, \<^verbatim>\<open>createAddInClient\<close> constructs the direct
  client if and only if the \<^verbatim>\<open>external\<close> object has a truthy \<^verbatim>\<open>GetChatRoom\<close>, or the
  \<^verbatim>\<open>addins\<close> global has one, or the page is not cross-domain, that is, the location of
  its parent can be read; otherwise it constructs the post-message client. In
  particular a readable parent yields the direct client, with or without the host
  globals, and a global with \<^verbatim>\<open>GetChatRoom\<close> yields the direct client whether or not the
  page is cross-domain.
\<close>

theorem createAddInClient_choice:
  "createAddInClient pg =
     (if external pg = Some True \<or> addins pg = Some True
         \<or> (\<exists>href. parent pg = Some (Href (Some href)))
      then Direct else PostMessage)
   \<and> (parent pg = Some (Href (Some href)) \<longrightarrow> createAddInClient pg = Direct)
   \<and> (external pg = Some True \<or> addins pg = Some True \<longrightarrow> createAddInClient pg = Direct)"
  by (auto simp: createAddInClient_def isCrossDomain_iff)

text \<open>
  C7 at three pages: same origin without host globals, cross origin with the
  \<^verbatim>\<open>addins\<close> marker, cross origin without a marker.
\<close>

theorem createAddInClient_choice_witness:
  "createAddInClient same_origin_page = Direct
   \<and> createAddInClient cross_origin_addins_page = Direct
   \<and> createAddInClient cross_origin_page = PostMessage"
proof -
  have p1: "parent same_origin_page = Some (Href (Some ''https://host.example/chat''))"
    by (simp add: same_origin_page_def)
  have p2: "external cross_origin_addins_page = Some True \<or> addins cross_origin_addins_page = Some True"
    by (simp add: cross_origin_addins_page_def)
  have p3: "\<not> (external cross_origin_page = Some True \<or> addins cross_origin_page = Some True
         \<or> (\<exists>href. parent cross_origin_page = Some (Href (Some href))))"
    by (simp add: cross_origin_page_def)
  from createAddInClient_choice [of same_origin_page "''https://host.example/chat''"] p1
  have c1: "createAddInClient same_origin_page = Direct" by blast
  from createAddInClient_choice [of cross_origin_addins_page] p2
  have c2: "createAddInClient cross_origin_addins_page = Direct" by blast
  from createAddInClient_choice [of cross_origin_page] p3
  have c3: "createAddInClient cross_origin_page = PostMessage" by presburger
  from c1 c2 c3 show ?thesis by simp
qed

text \<open>
  Claim C7 as stated fails in its second half: it says that a page that can read its
  parent's location and has no direct-API global gets the message transport. Such a
  page is not cross-domain, and the selector constructs the direct client.
\<close>

theorem readable_parent_selects_direct:
  "createAddInClient same_origin_page = Direct
   \<and> createAddInClient same_origin_page \<noteq> PostMessage"
  by (simp add: createAddInClient_def isCrossDomain_def same_origin_page_def)

section \<open>Properties of the direct transport\<close>

lemma any_iff: "any xs p \<longleftrightarrow> (\<exists>x \<in> set xs. p x)"
  by (induction xs) auto

text \<open>The constructor writes the three handler methods into the three slots.\<close>

lemma new_DirectAddInClient_slots:
  "MessageReceived (snd (new_DirectAddInClient w)) = Some M_messageReceivedHandler"
  "MessagePosting (snd (new_DirectAddInClient w)) = Some M_beforeMessagePostHandler"
  "Closing (snd (new_DirectAddInClient w)) = Some M_closingHandler"
  by (simp_all add: new_DirectAddInClient_def registerApiHandlers_def)

text \<open>Called on the client, the pre-send handler dispatches under
  \<^verbatim>\<open>beforemessagesend\<close> and returns whether some handler returned \<^verbatim>\<open>true\<close>: here for
  handlers that do not change the list of pre-send handlers, and then for handlers that
  leave the dispatcher alone.\<close>

lemma beforeMessagePostHandler_bound:
  assumes "handlers (dispatcher c) ''beforemessagesend'' = Some (HandlerArray hs)"
    and "\<forall>h \<in> set hs. \<forall>d. handlers d ''beforemessagesend'' = Some (HandlerArray hs) \<longrightarrow>
      handlers (snd (run (handler h) (scope h) [message] d)) ''beforemessagesend'' =
        Some (HandlerArray hs)"
    and "dispatch_in_order run hs [message] (dispatcher c) = (fx, Inr rs, d')"
  shows "beforeMessagePostHandler run c ThisClient message =
     Some (map (\<lambda>h. Invoke (handler h) (scope h) [message]) hs,
           Inr (JBool (JBool True \<in> set rs)), c\<lparr> dispatcher := d' \<rparr>)"
proof -
  have "callHandlers run (dispatcher c) ''beforemessagesend'' (JArr [message]) =
      Some (dispatch_in_order run hs [message] (dispatcher c))"
    by (rule callHandlers_in_order [where run = run and xs = "[message]", OF assms(1) _ assms(2)])
       simp
  with assms(3) have call: "callHandlers run (dispatcher c) ''beforemessagesend'' (JArr [message]) =
      Some (fx, Inr rs, d')"
    by simp
  have fx: "fx = map (\<lambda>h. Invoke (handler h) (scope h) [message]) hs"
    using dispatch_in_order_returns [OF assms(3)] by simp
  have "any rs (\<lambda>item. item = JBool True) \<longleftrightarrow> JBool True \<in> set rs"
    unfolding any_iff by blast
  with call fx show ?thesis
    by (simp add: beforeMessagePostHandler_def)
qed

lemma beforeMessagePostHandler_quiet:
  assumes "handlers (dispatcher c) ''beforemessagesend'' = Some (HandlerArray hs)"
    and "\<forall>h \<in> set hs. \<forall>d. run (handler h) (scope h) [message] d = (Inr (ret h), d)"
  shows "beforeMessagePostHandler run c ThisClient message =
     Some (map (\<lambda>h. Invoke (handler h) (scope h) [message]) hs,
           Inr (JBool (\<exists>h \<in> set hs. ret h = JBool True)), c)"
proof -
  have stable: "\<forall>h \<in> set hs. \<forall>d. handlers d ''beforemessagesend'' = Some (HandlerArray hs) \<longrightarrow>
      handlers (snd (run (handler h) (scope h) [message] d)) ''beforemessagesend'' =
        Some (HandlerArray hs)"
    using assms(2) by simp
  have d: "dispatch_in_order run hs [message] (dispatcher c) =
      (map (\<lambda>h. Invoke (handler h) (scope h) [message]) hs, Inr (map ret hs), dispatcher c)"
    by (rule dispatch_in_order_quiet [where run = run and xs = "[message]", OF assms(2)])
  have "beforeMessagePostHandler run c ThisClient message =
     Some (map (\<lambda>h. Invoke (handler h) (scope h) [message]) hs,
           Inr (JBool (JBool True \<in> set (map ret hs))), c\<lparr> dispatcher := dispatcher c \<rparr>)"
    by (rule beforeMessagePostHandler_bound [where run = run, OF assms(1) stable d])
  moreover have "JBool True \<in> set (map ret hs) \<longleftrightarrow> (\<exists>h \<in> set hs. ret h = JBool True)"
    by (simp add: image_iff) metis
  ultimately show ?thesis by simp
qed

text \<open>A pre-send handler registered while the dispatch runs is asked in the same pass:
  the one handler registered at the start returns \<^verbatim>\<open>false\<close>, and the answer is
  \<^verbatim>\<open>true\<close>.\<close>

lemma beforeMessagePostHandler_asks_handler_added_during_dispatch:
  "beforeMessagePostHandler example_run
       \<lparr> dispatcher = registering_dispatcher, initialized = False \<rparr> ThisClient (JStr ''hi'') =
     Some ([Invoke (Fn 3) None [JStr ''hi''], Invoke (Fn 1) None [JStr ''hi'']],
           Inr (JBool True),
           \<lparr> dispatcher = \<lparr> handlers = [''beforemessagesend'' \<mapsto>
               HandlerArray [\<lparr> handler = Fn 3, scope = None \<rparr>, \<lparr> handler = Fn 1, scope = None \<rparr>]] \<rparr>,
             initialized = False \<rparr>)"
  by (simp add: beforeMessagePostHandler_def callHandlers_runs_handler_added_during_dispatch)

text \<open>Called on anything else, each of the three methods throws before it reaches a
  dispatcher.\<close>

lemma call_method_unbound:
  assumes "this \<noteq> ThisClient"
  shows "call_method run c m this args = Some ([], Inl TypeError, c)"
  using assms
  by (cases m; cases this)
     (simp_all add: messageReceivedHandler_def beforeMessagePostHandler_def closingHandler_def)

lemma vetoing_direct_client_handlers:
  "handlers (dispatcher vetoing_direct_client) ''beforemessagesend'' =
     Some (HandlerArray [\<lparr> handler = Fn 1, scope = None \<rparr>])"
  by (simp add: vetoing_direct_client_def direct_addBeforeMessageSendHandler_def
      new_DirectAddInClient_def addHandler_def getOrCreateHandlers_def getHandlers_def
      new_MulticastDispatcher_def Object_prototype_event_names Let_def)

subsection \<open>Claim C8: the host callback slots\<close>

text \<open>
  Claim C8 says that the handlers the direct transport installs on the global slots
  \<^verbatim>\<open>MessageReceived\<close>, \<^verbatim>\<open>MessagePosting\<close> and \<^verbatim>\<open>Closing\<close> forward to its dispatcher,
  and that the installed pre-send handler returns true if and only if some registered
  handler does. The constructor does install the three methods
  (\<open>new_DirectAddInClient_slots\<close>), and a method called on the client does what the claim
  says (\<open>beforeMessagePostHandler_bound\<close>, \<open>beforeMessagePostHandler_quiet\<close>). But the
  slots hold the bare methods, so when the host calls \<^verbatim>\<open>window.MessagePosting("hi")\<close> on
  a client whose one pre-send handler returns true, \<^verbatim>\<open>this\<close> is not the client,
  \<^verbatim>\<open>this.dispatcher\<close> is undefined, and the call throws: no handler is invoked and
  nothing is returned.
\<close>

theorem MessagePosting_slot_throws:
  "host_invoke example_run vetoing_direct_client
       (MessagePosting (snd (new_DirectAddInClient no_slots))) [JStr ''hi'']
     = Some ([], Inl TypeError, vetoing_direct_client)
   \<and> beforeMessagePostHandler example_run vetoing_direct_client ThisClient (JStr ''hi'')
     = Some ([Invoke (Fn 1) None [JStr ''hi'']], Inr (JBool True), vetoing_direct_client)"
proof -
  have bound: "beforeMessagePostHandler example_run vetoing_direct_client ThisClient (JStr ''hi'') =
     Some (map (\<lambda>h. Invoke (handler h) (scope h) [JStr ''hi'']) [\<lparr> handler = Fn 1, scope = None \<rparr>],
      Inr (JBool (\<exists>h \<in> set [\<lparr> handler = Fn 1, scope = None \<rparr>].
         projr (example_app (handler h) (scope h) [JStr ''hi'']) = JBool True)),
      vetoing_direct_client)"
    by (rule beforeMessagePostHandler_quiet [where run = example_run, OF vetoing_direct_client_handlers])
       (simp add: example_run_def quiet_run_def example_app_def)
  have slot: "host_invoke example_run vetoing_direct_client
       (MessagePosting (snd (new_DirectAddInClient no_slots))) [JStr ''hi''] =
       Some ([], Inl TypeError, vetoing_direct_client)"
    by (simp add: host_invoke_def new_DirectAddInClient_slots beforeMessagePostHandler_def)
  from bound slot show ?thesis by (simp add: example_app_def)
qed

section \<open>Properties of the message transport\<close>

lemma showNat_small: "showNat (Suc 0) = ''1''" "showNat (Suc (Suc 0)) = ''2''"
  by (subst showNat.simps, simp add: digit_def)+

lemma getProp_truthy: "truthy (getProp m k) \<Longrightarrow> truthy m"
  by (cases m) auto

lemma sendApiRequest_registers:
  "fst (sendApiRequest c method s f sc args) =
     c\<lparr> nextCallbackId := Suc (nextCallbackId c),
        callbacks := (callbacks c)(callbackPrefix @ showNat (nextCallbackId c) \<mapsto>
           \<lparr> success = s, failure = f, cscope = sc \<rparr>) \<rparr>"
  by (simp add: sendApiRequest_def addCallback_def Let_def)

lemma pending_client_eval:
  "pending_client =
     \<lparr> eventDispatcher = new_MulticastDispatcher, nextCallbackId = Suc (Suc (Suc 0)),
       callbacks = [''cb-1'' \<mapsto> \<lparr> success = Some (Fn 5), failure = Some (Fn 6), cscope = Some 20 \<rparr>,
                    ''cb-2'' \<mapsto> \<lparr> success = Some (Fn 7), failure = Some (Fn 8), cscope = None \<rparr>] \<rparr>"
  by (simp add: pending_client_def sendMessage_def getChatRoom_def sendApiRequest_registers
      new_PostMessageAddInClient_def callbackPrefix_def showNat_small)

lemma pending_client_callbacks:
  "callbacks pending_client ''cb-1'' = Some \<lparr> success = Some (Fn 5), failure = Some (Fn 6), cscope = Some 20 \<rparr>"
  "callbacks pending_client ''cb-2'' = Some \<lparr> success = Some (Fn 7), failure = Some (Fn 8), cscope = None \<rparr>"
  by (simp_all add: pending_client_eval)

lemma sendMessage_posts:
  "snd (sendMessage new_PostMessageAddInClient ''hello'' False s f sc) =
     [Post (JObj [(''id'', JStr ''cb-1''), (''method'', JStr ''SendMessage''),
                  (''message'', JStr ''hello''), (''alert'', JBool False)])]"
  by (simp add: sendMessage_def sendApiRequest_def addCallback_def Let_def merge_def
      new_PostMessageAddInClient_def callbackPrefix_def showNat_small)

text \<open>A response whose id names no own entry of the table changes nothing and calls
  nothing, whether or not the id is an inherited name.\<close>

lemma invokeResponseCallback_absent:
  assumes "toPropertyKey (getProp message ''id'') = Inr key" and "callbacks c key = None"
  shows "invokeResponseCallback app c message = (c, [], Inr ())"
proof -
  have same: "c\<lparr> callbacks := (callbacks c)(key := None) \<rparr> = c"
    using assms(2) by (simp add: fun_upd_idem)
  show ?thesis
    using assms same
    by (auto simp: invokeResponseCallback_def lookup_callback_def Let_def split: option.splits)
qed

text \<open>What \<^verbatim>\<open>invokeResponseCallback\<close> can do: nothing; or delete the entry found under
  the id and apply at most one of its two continuations to the response value.\<close>

lemma invokeResponseCallback_cases:
  assumes "invokeResponseCallback app c message = (c', fx, out)"
  shows "(c' = c \<and> fx = []) \<or>
         (\<exists>key callback. toPropertyKey (getProp message ''id'') = Inr key
            \<and> lookup_callback c key = Some callback
            \<and> c' = c\<lparr> callbacks := (callbacks c)(key := None) \<rparr>
            \<and> (fx = [] \<or> (\<exists>f. (success callback = Some f \<or> failure callback = Some f)
                  \<and> fx = [Invoke f (cscope callback)
                       [if truthy (getProp message ''result'')
                        then getProp message ''result'' else JStr []]])))"
proof (cases "truthy (getProp message ''id'')")
  case False
  with assms show ?thesis by (simp add: invokeResponseCallback_def)
next
  case True
  note t = True
  show ?thesis
  proof (cases "toPropertyKey (getProp message ''id'')")
    case (Inl e)
    with assms t show ?thesis by (simp add: invokeResponseCallback_def)
  next
    case (Inr key)
    note k = Inr
    show ?thesis
    proof (cases "lookup_callback c key")
      case None
      with assms t k show ?thesis by (simp add: invokeResponseCallback_def)
    next
      case (Some callback)
      with assms t k show ?thesis
        by (auto simp: invokeResponseCallback_def Let_def split: if_splits)
    qed
  qed
qed

lemma lookup_callback_continuation:
  assumes "lookup_callback c key = Some callback"
    and "success callback = Some f \<or> failure callback = Some f"
  shows "callbacks c key = Some callback"
  using assms by (auto simp: lookup_callback_def split: option.splits)

text \<open>A response to a registered call: the entry is deleted, and the success continuation
  gets the response value when \<^verbatim>\<open>success\<close> is truthy, the failure continuation when it
  is falsy, each with the stored scope. The response value is \<^verbatim>\<open>message.result || ""\<close>.\<close>

lemma invokeResponseCallback_success:
  assumes "getProp message ''id'' = JStr key" and "key \<noteq> []"
    and "callbacks c key = Some callback"
    and "truthy (getProp message ''success'')" and "success callback = Some f"
  shows "invokeResponseCallback app c message =
     (c\<lparr> callbacks := (callbacks c)(key := None) \<rparr>,
      [Invoke f (cscope callback)
         [if truthy (getProp message ''result'') then getProp message ''result'' else JStr []]],
      (case app f (cscope callback)
         [if truthy (getProp message ''result'') then getProp message ''result'' else JStr []] of
         Inl e \<Rightarrow> Inl e | Inr v \<Rightarrow> Inr ()))"
  using assms by (simp add: invokeResponseCallback_def lookup_callback_def Let_def)

lemma invokeResponseCallback_failure:
  assumes "getProp message ''id'' = JStr key" and "key \<noteq> []"
    and "callbacks c key = Some callback"
    and "\<not> truthy (getProp message ''success'')" and "failure callback = Some f"
  shows "invokeResponseCallback app c message =
     (c\<lparr> callbacks := (callbacks c)(key := None) \<rparr>,
      [Invoke f (cscope callback)
         [if truthy (getProp message ''result'') then getProp message ''result'' else JStr []]],
      (case app f (cscope callback)
         [if truthy (getProp message ''result'') then getProp message ''result'' else JStr []] of
         Inl e \<Rightarrow> Inl e | Inr v \<Rightarrow> Inr ()))"
  using assms by (simp add: invokeResponseCallback_def lookup_callback_def Let_def)

subsection \<open>Claim C1: at most one delivery\<close>

text \<open>
  Claim C1. A response envelope is delivered to at most one pending call: if
  \<^verbatim>\<open>invokeResponseCallback\<close> makes a call at all, it makes exactly one, to the success
  or the failure continuation of the pending call registered under the envelope's id,
  with that call's scope; the pending call is no longer in the table when its
  continuation is entered; and a second response carrying the same id then invokes no
  continuation and leaves the table, and the rest of the client, unchanged. Nothing is
  posted.
\<close>

theorem response_delivered_at_most_once:
  assumes "invokeResponseCallback app c message = (c', fx, out)"
  shows "length fx \<le> 1
    \<and> (\<forall>e \<in> set fx. \<exists>f s xs key callback. e = Invoke f s xs
          \<and> toPropertyKey (getProp message ''id'') = Inr key
          \<and> callbacks c key = Some callback
          \<and> (success callback = Some f \<or> failure callback = Some f)
          \<and> s = cscope callback
          \<and> callbacks c' = (callbacks c)(key := None))
    \<and> (fx \<noteq> [] \<longrightarrow>
          (\<forall>message'. getProp message' ''id'' = getProp message ''id'' \<longrightarrow>
             invokeResponseCallback app c' message' = (c', [], Inr ())))"
proof (cases "fx = []")
  case True
  then show ?thesis by simp
next
  case False
  with invokeResponseCallback_cases [OF assms]
  obtain key callback f where k: "toPropertyKey (getProp message ''id'') = Inr key"
    and l: "lookup_callback c key = Some callback"
    and c': "c' = c\<lparr> callbacks := (callbacks c)(key := None) \<rparr>"
    and f: "success callback = Some f \<or> failure callback = Some f"
    and fx: "fx = [Invoke f (cscope callback)
                 [if truthy (getProp message ''result'') then getProp message ''result'' else JStr []]]"
    by blast
  have own: "callbacks c key = Some callback"
    by (rule lookup_callback_continuation [OF l f])
  have gone: "callbacks c' key = None" using c' by simp
  have again: "invokeResponseCallback app c' message' = (c', [], Inr ())"
    if "getProp message' ''id'' = getProp message ''id''" for message'
    using that k gone by (simp add: invokeResponseCallback_absent)
  from k own f fx c' again show ?thesis by simp
qed

text \<open>
  C1 on the round trip of the specification: the call registered under \<^verbatim>\<open>cb-1\<close> is
  answered by \<^verbatim>\<open>{"id":"cb-1","success":true,"result":"X"}\<close>; its success continuation
  \<open>Fn 5\<close> is applied once to \<^verbatim>\<open>"X"\<close> with the stored scope, the entry is gone, and the
  same response a second time does nothing.
\<close>

theorem response_delivered_at_most_once_witness:
  "invokeResponseCallback example_app pending_client response_X =
     (answered_client, [Invoke (Fn 5) (Some 20) [JStr ''X'']], Inr ())
   \<and> callbacks answered_client ''cb-1'' = None
   \<and> callbacks answered_client ''cb-2'' = callbacks pending_client ''cb-2''
   \<and> invokeResponseCallback example_app answered_client response_X = (answered_client, [], Inr ())"
proof -
  have first: "invokeResponseCallback example_app pending_client response_X =
     (answered_client, [Invoke (Fn 5) (Some 20) [JStr ''X'']], Inr ())"
    using invokeResponseCallback_success [where app = example_app and c = pending_client
        and message = response_X and key = "''cb-1''", OF _ _ pending_client_callbacks(1)]
    by (simp add: response_X_def answered_client_def example_app_def)
  from response_delivered_at_most_once [OF first]
  have "invokeResponseCallback example_app answered_client response_X = (answered_client, [], Inr ())"
    by simp
  with first show ?thesis by (simp add: answered_client_def)
qed

subsection \<open>Claim C5: which continuation, with which value\<close>

text \<open>
  Claim C5 says that a response to a registered call invokes only the success
  continuation when \<^verbatim>\<open>success\<close> is true and only the failure continuation when it is
  false, with the stored scope, and passes the envelope's \<^verbatim>\<open>result\<close>, replaced by the
  empty string only when \<^verbatim>\<open>result\<close> is absent. The choice of the continuation and the
  scope are as claimed (\<open>invokeResponseCallback_success\<close>,
  \<open>invokeResponseCallback_failure\<close>), and \<^verbatim>\<open>"boom"\<close> reaches the failure continuation of
  \<^verbatim>\<open>cb-2\<close>. But the value passed is \<^verbatim>\<open>message.result || ""\<close>: the response
  \<^verbatim>\<open>{"id":"cb-2","success":true,"result":false}\<close> to a \<^verbatim>\<open>sendMessage\<close> call, whose
  result is present and is \<^verbatim>\<open>false\<close>, gives the success continuation the empty string.
\<close>

theorem false_result_becomes_empty_string:
  "invokeResponseCallback example_app pending_client response_not_sent =
     (pending_client\<lparr> callbacks := (callbacks pending_client)(''cb-2'' := None) \<rparr>,
      [Invoke (Fn 7) None [JStr '''']], Inr ())
   \<and> getProp response_not_sent ''result'' = JBool False
   \<and> invokeResponseCallback example_app pending_client response_boom =
     (pending_client\<lparr> callbacks := (callbacks pending_client)(''cb-2'' := None) \<rparr>,
      [Invoke (Fn 8) None [JStr ''boom'']], Inr ())"
proof -
  have a: "invokeResponseCallback example_app pending_client response_not_sent =
     (pending_client\<lparr> callbacks := (callbacks pending_client)(''cb-2'' := None) \<rparr>,
      [Invoke (Fn 7) None [JStr '''']], Inr ())"
    using invokeResponseCallback_success [where app = example_app and c = pending_client
        and message = response_not_sent and key = "''cb-2''", OF _ _ pending_client_callbacks(2)]
    by (simp add: response_not_sent_def example_app_def)
  have b: "invokeResponseCallback example_app pending_client response_boom =
     (pending_client\<lparr> callbacks := (callbacks pending_client)(''cb-2'' := None) \<rparr>,
      [Invoke (Fn 8) None [JStr ''boom'']], Inr ())"
    using invokeResponseCallback_failure [where app = example_app and c = pending_client
        and message = response_boom and key = "''cb-2''", OF _ _ pending_client_callbacks(2)]
    by (simp add: response_boom_def example_app_def)
  from a b show ?thesis by (simp add: response_not_sent_def)
qed

subsection \<open>Claim C2: frames that are not envelopes\<close>

text \<open>
  Claim C2, as amended. A frame whose body parses to a value of an unrecognized shape
  (a falsy value, or a value whose \<^verbatim>\<open>event\<close> and \<^verbatim>\<open>id\<close> are both falsy or absent) is
  dropped: the listener returns normally, posts and calls nothing, and leaves the client
  (pending calls and registrations) unchanged. A frame whose body is not valid JSON
  leaves the client unchanged and posts and calls nothing as well, but the listener does
  not return normally: the exception of \<^verbatim>\<open>JSON.parse\<close> leaves it.
\<close>

theorem unrecognized_frame:
  "onMessageReceived run app c (Inl e) = Some (c, [], Inl e)
   \<and> (\<not> truthy message \<or> (\<not> truthy (getProp message ''event'') \<and> \<not> truthy (getProp message ''id''))
        \<longrightarrow> onMessageReceived run app c (Inr message) = Some (c, [], Inr ()))"
  by (simp add: onMessageReceived_def isApiEvent_def isApiResponse_def)

text \<open>C2 on the bodies \<^verbatim>\<open>{"foo":1}\<close>, \<^verbatim>\<open>null\<close>, \<^verbatim>\<open>5\<close> and \<^verbatim>\<open>{"id":0}\<close>, and on a body
  that does not parse.\<close>

theorem unrecognized_frame_witness:
  "onMessageReceived example_run example_app pending_client (Inr (JObj [(''foo'', JNum 1)])) =
       Some (pending_client, [], Inr ())
   \<and> onMessageReceived example_run example_app pending_client (Inr JNull) =
       Some (pending_client, [], Inr ())
   \<and> onMessageReceived example_run example_app pending_client (Inr (JNum 5)) =
       Some (pending_client, [], Inr ())
   \<and> onMessageReceived example_run example_app pending_client (Inr (JObj [(''id'', JNum 0)])) =
       Some (pending_client, [], Inr ())
   \<and> onMessageReceived example_run example_app pending_client (Inl SyntaxError) =
       Some (pending_client, [], Inl SyntaxError)"
proof -
  have h1: "\<not> truthy (JObj [(''foo'', JNum 1)]) \<or>
      (\<not> truthy (getProp (JObj [(''foo'', JNum 1)]) ''event'') \<and>
       \<not> truthy (getProp (JObj [(''foo'', JNum 1)]) ''id''))" by simp
  have h2: "\<not> truthy JNull \<or>
      (\<not> truthy (getProp JNull ''event'') \<and> \<not> truthy (getProp JNull ''id''))" by simp
  have h3: "\<not> truthy (JNum 5) \<or>
      (\<not> truthy (getProp (JNum 5) ''event'') \<and> \<not> truthy (getProp (JNum 5) ''id''))" by simp
  have h4: "\<not> truthy (JObj [(''id'', JNum 0)]) \<or>
      (\<not> truthy (getProp (JObj [(''id'', JNum 0)]) ''event'') \<and>
       \<not> truthy (getProp (JObj [(''id'', JNum 0)]) ''id''))" by simp
  from unrecognized_frame [of example_run example_app pending_client SyntaxError "JObj [(''foo'', JNum 1)]"] h1
  have c1: "onMessageReceived example_run example_app pending_client (Inr (JObj [(''foo'', JNum 1)])) =
       Some (pending_client, [], Inr ())"
    and c5: "onMessageReceived example_run example_app pending_client (Inl SyntaxError) =
       Some (pending_client, [], Inl SyntaxError)"
    by blast+
  from unrecognized_frame [of example_run example_app pending_client SyntaxError JNull] h2
  have c2: "onMessageReceived example_run example_app pending_client (Inr JNull) =
       Some (pending_client, [], Inr ())"
    by blast
  from unrecognized_frame [of example_run example_app pending_client SyntaxError "JNum 5"] h3
  have c3: "onMessageReceived example_run example_app pending_client (Inr (JNum 5)) =
       Some (pending_client, [], Inr ())"
    by blast
  from unrecognized_frame [of example_run example_app pending_client SyntaxError "JObj [(''id'', JNum 0)]"] h4
  have c4: "onMessageReceived example_run example_app pending_client (Inr (JObj [(''id'', JNum 0)])) =
       Some (pending_client, [], Inr ())"
    by blast
  from c1 c2 c3 c4 c5 show ?thesis by simp
qed

text \<open>
  Claim C2 as stated fails for a body that is not valid JSON: the claim says the
  listener drops the frame without throwing, and the listener throws the
  \<^verbatim>\<open>SyntaxError\<close> of \<^verbatim>\<open>JSON.parse\<close>.
\<close>

theorem malformed_frame_throws:
  "onMessageReceived example_run example_app pending_client (Inl SyntaxError) =
       Some (pending_client, [], Inl SyntaxError)
   \<and> map_option (\<lambda>r. snd (snd r)) (onMessageReceived example_run example_app pending_client (Inl SyntaxError))
       \<noteq> Some (Inr ())"
  by (simp add: onMessageReceived_def)

subsection \<open>Event envelopes\<close>

text \<open>
  The listener on an event envelope. If no handler of the list changes the list
  registered under the event's name, the listener does what the dispatch in order over
  the list does: when that ends with results, the calls in registration order, then the
  acknowledgement when the event's id is truthy; when it ends with an exception, the
  calls made and the exception.
\<close>

lemma onMessageReceived_event:
  assumes "truthy apiEvent" and "getProp message ''event'' = apiEvent"
    and "toPropertyKey (getProp apiEvent ''name'') = Inr eventName"
    and "handlers (eventDispatcher c) eventName = Some (HandlerArray hs)
         \<or> (handlers (eventDispatcher c) eventName = None \<and> Object_prototype eventName = None
             \<and> hs = [])"
    and "getProp apiEvent ''args'' = JArr xs \<or> (\<not> truthy (getProp apiEvent ''args'') \<and> xs = [])"
    and "\<forall>h \<in> set hs. \<forall>d. handlers d eventName = Some (HandlerArray hs) \<longrightarrow>
      handlers (snd (run (handler h) (scope h) xs d)) eventName = Some (HandlerArray hs)"
    and "dispatch_in_order run hs xs (eventDispatcher c) = (fx, Inr rs, d')"
  shows "onMessageReceived run app c (Inr message) =
     Some (c\<lparr> eventDispatcher := d' \<rparr>,
      map (\<lambda>h. Invoke (handler h) (scope h) xs) hs @
        (if truthy (getProp apiEvent ''id'')
         then [Post (JObj [(''eventId'', getProp apiEvent ''id''),
                           (''stopEvent'', JBool (JBool True \<in> set rs))])]
         else []),
      Inr ())"
proof -
  have m: "truthy message" using assms(1,2) getProp_truthy by blast
  have fx: "fx = map (\<lambda>h. Invoke (handler h) (scope h) xs) hs"
    using dispatch_in_order_returns [OF assms(7)] by simp
  have call: "callHandlers run (eventDispatcher c) eventName (getProp apiEvent ''args'') =
     Some (fx, Inr rs, d')"
  proof (cases "handlers (eventDispatcher c) eventName")
    case None
    with assms(4) have "hs = []" "Object_prototype eventName = None" by simp_all
    with None assms(7) show ?thesis by (simp add: callHandlers_no_list)
  next
    case (Some a)
    with assms(4) have own: "handlers (eventDispatcher c) eventName = Some (HandlerArray hs)"
      by simp
    have "callHandlers run (eventDispatcher c) eventName (getProp apiEvent ''args'') =
       Some (dispatch_in_order run hs xs (eventDispatcher c))"
      by (rule callHandlers_in_order [where run = run and xs = xs, OF own assms(5) assms(6)])
    with assms(7) show ?thesis by simp
  qed
  have stop: "any rs (\<lambda>item. item = JBool True) \<longleftrightarrow> JBool True \<in> set rs"
    unfolding any_iff by blast
  show ?thesis
    using m assms(1,2,3) call stop fx
    by (simp add: onMessageReceived_def isApiEvent_def dispatchApiEvent_def Let_def)
qed

lemma onMessageReceived_event_throws:
  assumes "truthy apiEvent" and "getProp message ''event'' = apiEvent"
    and "toPropertyKey (getProp apiEvent ''name'') = Inr eventName"
    and "handlers (eventDispatcher c) eventName = Some (HandlerArray hs)"
    and "getProp apiEvent ''args'' = JArr xs \<or> (\<not> truthy (getProp apiEvent ''args'') \<and> xs = [])"
    and "\<forall>h \<in> set hs. \<forall>d. handlers d eventName = Some (HandlerArray hs) \<longrightarrow>
      handlers (snd (run (handler h) (scope h) xs d)) eventName = Some (HandlerArray hs)"
    and "dispatch_in_order run hs xs (eventDispatcher c) = (fx, Inl e, d')"
  shows "onMessageReceived run app c (Inr message) = Some (c\<lparr> eventDispatcher := d' \<rparr>, fx, Inl e)"
proof -
  have m: "truthy message" using assms(1,2) getProp_truthy by blast
  have "callHandlers run (eventDispatcher c) eventName (getProp apiEvent ''args'') =
       Some (dispatch_in_order run hs xs (eventDispatcher c))"
    by (rule callHandlers_in_order [where run = run and xs = xs, OF assms(4) assms(5) assms(6)])
  with assms(7) have call: "callHandlers run (eventDispatcher c) eventName (getProp apiEvent ''args'') =
     Some (fx, Inl e, d')"
    by simp
  show ?thesis
    using m assms(1,2,3) call
    by (simp add: onMessageReceived_def isApiEvent_def dispatchApiEvent_def Let_def)
qed

text \<open>The same with handlers that leave the dispatcher alone and return: the client is
  left as it was, and \<^verbatim>\<open>stopEvent\<close> is whether some handler returned \<^verbatim>\<open>true\<close>.\<close>

lemma onMessageReceived_event_quiet:
  assumes "truthy apiEvent" and "getProp message ''event'' = apiEvent"
    and "toPropertyKey (getProp apiEvent ''name'') = Inr eventName"
    and "handlers (eventDispatcher c) eventName = Some (HandlerArray hs)
         \<or> (handlers (eventDispatcher c) eventName = None \<and> Object_prototype eventName = None
             \<and> hs = [])"
    and "getProp apiEvent ''args'' = JArr xs \<or> (\<not> truthy (getProp apiEvent ''args'') \<and> xs = [])"
    and "\<forall>h \<in> set hs. \<forall>d. run (handler h) (scope h) xs d = (Inr (ret h), d)"
  shows "onMessageReceived run app c (Inr message) =
     Some (c,
      map (\<lambda>h. Invoke (handler h) (scope h) xs) hs @
        (if truthy (getProp apiEvent ''id'')
         then [Post (JObj [(''eventId'', getProp apiEvent ''id''),
                           (''stopEvent'', JBool (\<exists>h \<in> set hs. ret h = JBool True))])]
         else []),
      Inr ())"
proof -
  have stable: "\<forall>h \<in> set hs. \<forall>d. handlers d eventName = Some (HandlerArray hs) \<longrightarrow>
      handlers (snd (run (handler h) (scope h) xs d)) eventName = Some (HandlerArray hs)"
    using assms(6) by simp
  have d: "dispatch_in_order run hs xs (eventDispatcher c) =
      (map (\<lambda>h. Invoke (handler h) (scope h) xs) hs, Inr (map ret hs), eventDispatcher c)"
    by (rule dispatch_in_order_quiet [where run = run and xs = xs, OF assms(6)])
  have "onMessageReceived run app c (Inr message) =
     Some (c\<lparr> eventDispatcher := eventDispatcher c \<rparr>,
      map (\<lambda>h. Invoke (handler h) (scope h) xs) hs @
        (if truthy (getProp apiEvent ''id'')
         then [Post (JObj [(''eventId'', getProp apiEvent ''id''),
                           (''stopEvent'', JBool (JBool True \<in> set (map ret hs)))])]
         else []),
      Inr ())"
    by (rule onMessageReceived_event [where run = run and xs = xs,
          OF assms(1) assms(2) assms(3) assms(4) assms(5) stable d])
  moreover have "JBool True \<in> set (map ret hs) \<longleftrightarrow> (\<exists>h \<in> set hs. ret h = JBool True)"
    by (simp add: image_iff) metis
  ultimately show ?thesis by simp
qed

lemma suppressing_client_handlers:
  "handlers (eventDispatcher suppressing_client) ''beforemessagesend'' =
     Some (HandlerArray [\<lparr> handler = Fn 0, scope = Some 10 \<rparr>, \<lparr> handler = Fn 1, scope = Some 11 \<rparr>,
                         \<lparr> handler = Fn 0, scope = Some 12 \<rparr>])"
  by (simp add: suppressing_client_def suppressing_dispatcher_handlers)

lemma permissive_client_handlers:
  "handlers (eventDispatcher permissive_client) ''beforemessagesend'' =
     Some (HandlerArray [\<lparr> handler = Fn 0, scope = Some 10 \<rparr>, \<lparr> handler = Fn 0, scope = Some 11 \<rparr>,
                         \<lparr> handler = Fn 0, scope = Some 12 \<rparr>])"
  by (simp add: permissive_client_def permissive_dispatcher_handlers)

lemma presend_event_fields:
  "getProp (presend_event i) ''event'' =
     JObj [(''name'', JStr ''beforemessagesend''), (''args'', JArr [JStr ''hi'']), (''id'', i)]"
  "getProp (JObj [(''name'', JStr ''beforemessagesend''), (''args'', JArr [JStr ''hi'']), (''id'', i)])
     ''name'' = JStr ''beforemessagesend''"
  "getProp (JObj [(''name'', JStr ''beforemessagesend''), (''args'', JArr [JStr ''hi'']), (''id'', i)])
     ''args'' = JArr [JStr ''hi'']"
  "getProp (JObj [(''name'', JStr ''beforemessagesend''), (''args'', JArr [JStr ''hi'']), (''id'', i)])
     ''id'' = i"
  by (simp_all add: presend_event_def)

text \<open>The pre-send event with id \<open>i\<close> on the two example clients.\<close>

lemma presend_event_suppressing:
  "onMessageReceived example_run example_app suppressing_client (Inr (presend_event i)) =
     Some (suppressing_client,
      [Invoke (Fn 0) (Some 10) [JStr ''hi''], Invoke (Fn 1) (Some 11) [JStr ''hi''],
       Invoke (Fn 0) (Some 12) [JStr ''hi'']] @
      (if truthy i then [Post (JObj [(''eventId'', i), (''stopEvent'', JBool True)])] else []),
      Inr ())"
proof -
  let ?ev = "JObj [(''name'', JStr ''beforemessagesend''), (''args'', JArr [JStr ''hi'']), (''id'', i)]"
  let ?hs = "[\<lparr> handler = Fn 0, scope = Some 10 \<rparr>, \<lparr> handler = Fn 1, scope = Some 11 \<rparr>,
              \<lparr> handler = Fn 0, scope = Some 12 \<rparr>]"
  let ?ret = "\<lambda>h. projr (example_app (handler h) (scope h) [JStr ''hi''])"
  have "onMessageReceived example_run example_app suppressing_client (Inr (presend_event i)) =
     Some (suppressing_client,
      map (\<lambda>h. Invoke (handler h) (scope h) [JStr ''hi'']) ?hs @
        (if truthy (getProp ?ev ''id'')
         then [Post (JObj [(''eventId'', getProp ?ev ''id''),
                           (''stopEvent'', JBool (\<exists>h \<in> set ?hs. ?ret h = JBool True))])]
         else []),
      Inr ())"
    by (rule onMessageReceived_event_quiet [where run = example_run
          and eventName = "''beforemessagesend''" and ret = ?ret])
       (simp_all add: presend_event_fields suppressing_client_handlers example_run_def quiet_run_def
          example_app_def)
  then show ?thesis by (simp add: example_app_def)
qed

lemma presend_event_permissive:
  "onMessageReceived example_run example_app permissive_client (Inr (presend_event i)) =
     Some (permissive_client,
      [Invoke (Fn 0) (Some 10) [JStr ''hi''], Invoke (Fn 0) (Some 11) [JStr ''hi''],
       Invoke (Fn 0) (Some 12) [JStr ''hi'']] @
      (if truthy i then [Post (JObj [(''eventId'', i), (''stopEvent'', JBool False)])] else []),
      Inr ())"
proof -
  let ?ev = "JObj [(''name'', JStr ''beforemessagesend''), (''args'', JArr [JStr ''hi'']), (''id'', i)]"
  let ?hs = "[\<lparr> handler = Fn 0, scope = Some 10 \<rparr>, \<lparr> handler = Fn 0, scope = Some 11 \<rparr>,
              \<lparr> handler = Fn 0, scope = Some 12 \<rparr>]"
  let ?ret = "\<lambda>h. projr (example_app (handler h) (scope h) [JStr ''hi''])"
  have "onMessageReceived example_run example_app permissive_client (Inr (presend_event i)) =
     Some (permissive_client,
      map (\<lambda>h. Invoke (handler h) (scope h) [JStr ''hi'']) ?hs @
        (if truthy (getProp ?ev ''id'')
         then [Post (JObj [(''eventId'', getProp ?ev ''id''),
                           (''stopEvent'', JBool (\<exists>h \<in> set ?hs. ?ret h = JBool True))])]
         else []),
      Inr ())"
    by (rule onMessageReceived_event_quiet [where run = example_run
          and eventName = "''beforemessagesend''" and ret = ?ret])
       (simp_all add: presend_event_fields permissive_client_handlers example_run_def quiet_run_def
          example_app_def)
  then show ?thesis by (simp add: example_app_def)
qed

text \<open>
  The listener follows the live array as well. On the client whose one pre-send handler
  \<open>Fn 3\<close> returns \<^verbatim>\<open>false\<close> and registers \<open>Fn 1\<close>, which returns \<^verbatim>\<open>true\<close>, the event is
  acknowledged with \<^verbatim>\<open>stopEvent\<close> true, and the client is left with both handlers.
\<close>

lemma presend_event_registering:
  "onMessageReceived example_run example_app registering_client (Inr (presend_event (JStr ''e1''))) =
     Some (registering_client\<lparr> eventDispatcher :=
             \<lparr> handlers = [''beforemessagesend'' \<mapsto>
                 HandlerArray [\<lparr> handler = Fn 3, scope = None \<rparr>, \<lparr> handler = Fn 1, scope = None \<rparr>]] \<rparr> \<rparr>,
      [Invoke (Fn 3) None [JStr ''hi''], Invoke (Fn 1) None [JStr ''hi''],
       Post (JObj [(''eventId'', JStr ''e1''), (''stopEvent'', JBool True)])],
      Inr ())"
  by (simp add: onMessageReceived_def isApiEvent_def dispatchApiEvent_def Let_def
      presend_event_def registering_client_def
      callHandlers_runs_handler_added_during_dispatch)

subsection \<open>Claim C6: dispatch and acknowledgement of an event\<close>

text \<open>
  Claim C6, as amended. When the message transport receives an event envelope
  \<^verbatim>\<open>{event: {name, args, id?}}\<close> whose \<^verbatim>\<open>args\<close> is an array (or falsy, for no
  arguments) and whose name has a registered handler list (or nothing at all) in the
  dispatcher, then, provided that no handler of that list changes the list registered
  under the event's name while the dispatch runs, and that every handler returns, it
  applies every handler registered under the name, once and in registration order, to
  the arguments; then, if and only if the event's \<^verbatim>\<open>id\<close> is truthy, it posts exactly one
  acknowledgement \<^verbatim>\<open>{eventId: id, stopEvent}\<close> to the parent, where \<^verbatim>\<open>stopEvent\<close> is
  true if and only if some handler returned the boolean \<^verbatim>\<open>true\<close>. An id that is present
  but falsy (\<^verbatim>\<open>0\<close>, \<^verbatim>\<open>""\<close>, \<^verbatim>\<open>false\<close>, \<^verbatim>\<open>null\<close>) is treated like an absent one. The
  pending calls are left as they were, and the dispatcher is as the handlers have left
  it: unchanged when the handlers leave it alone. (Without the proviso the handlers
  asked are those of the array as the handlers leave it, so that a handler registered
  during the dispatch is called and counts for \<^verbatim>\<open>stopEvent\<close>:
  \<open>presend_event_registering\<close>.)

  In the theorem, \<open>rs\<close> is the sequence of values the handlers return when they are
  called in order from the dispatcher of the client, and \<open>d'\<close> the dispatcher they leave;
  in its second part \<open>ret h\<close> is the value that a handler which leaves the dispatcher
  alone returns.
\<close>

theorem event_envelope_dispatch:
  assumes "truthy apiEvent" and "getProp message ''event'' = apiEvent"
    and "toPropertyKey (getProp apiEvent ''name'') = Inr eventName"
    and "handlers (eventDispatcher c) eventName = Some (HandlerArray hs)
         \<or> (handlers (eventDispatcher c) eventName = None \<and> Object_prototype eventName = None
             \<and> hs = [])"
    and "getProp apiEvent ''args'' = JArr xs \<or> (\<not> truthy (getProp apiEvent ''args'') \<and> xs = [])"
  shows "((\<forall>h \<in> set hs. \<forall>d. handlers d eventName = Some (HandlerArray hs) \<longrightarrow>
             handlers (snd (run (handler h) (scope h) xs d)) eventName = Some (HandlerArray hs))
          \<and> dispatch_in_order run hs xs (eventDispatcher c) = (fx, Inr rs, d') \<longrightarrow>
          onMessageReceived run app c (Inr message) =
            Some (c\<lparr> eventDispatcher := d' \<rparr>,
                  map (\<lambda>h. Invoke (handler h) (scope h) xs) hs @
                    (if truthy (getProp apiEvent ''id'')
                     then [Post (JObj [(''eventId'', getProp apiEvent ''id''),
                                       (''stopEvent'', JBool (JBool True \<in> set rs))])]
                     else []),
                  Inr ())
          \<and> length rs = length hs)
       \<and> ((\<forall>h \<in> set hs. \<forall>d. run (handler h) (scope h) xs d = (Inr (ret h), d)) \<longrightarrow>
          onMessageReceived run app c (Inr message) =
            Some (c,
                  map (\<lambda>h. Invoke (handler h) (scope h) xs) hs @
                    (if truthy (getProp apiEvent ''id'')
                     then [Post (JObj [(''eventId'', getProp apiEvent ''id''),
                                       (''stopEvent'', JBool (\<exists>h \<in> set hs. ret h = JBool True))])]
                     else []),
                  Inr ()))"
proof (intro conjI impI)
  assume a: "(\<forall>h \<in> set hs. \<forall>d. handlers d eventName = Some (HandlerArray hs) \<longrightarrow>
             handlers (snd (run (handler h) (scope h) xs d)) eventName = Some (HandlerArray hs))
          \<and> dispatch_in_order run hs xs (eventDispatcher c) = (fx, Inr rs, d')"
  show "onMessageReceived run app c (Inr message) =
            Some (c\<lparr> eventDispatcher := d' \<rparr>,
                  map (\<lambda>h. Invoke (handler h) (scope h) xs) hs @
                    (if truthy (getProp apiEvent ''id'')
                     then [Post (JObj [(''eventId'', getProp apiEvent ''id''),
                                       (''stopEvent'', JBool (JBool True \<in> set rs))])]
                     else []),
                  Inr ())"
    by (rule onMessageReceived_event [where run = run and xs = xs,
          OF assms(1) assms(2) assms(3) assms(4) assms(5) conjunct1 [OF a] conjunct2 [OF a]])
  show "length rs = length hs"
    using dispatch_in_order_returns [OF conjunct2 [OF a]] by simp
next
  assume q: "\<forall>h \<in> set hs. \<forall>d. run (handler h) (scope h) xs d = (Inr (ret h), d)"
  show "onMessageReceived run app c (Inr message) =
            Some (c,
                  map (\<lambda>h. Invoke (handler h) (scope h) xs) hs @
                    (if truthy (getProp apiEvent ''id'')
                     then [Post (JObj [(''eventId'', getProp apiEvent ''id''),
                                       (''stopEvent'', JBool (\<exists>h \<in> set hs. ret h = JBool True))])]
                     else []),
                  Inr ())"
    by (rule onMessageReceived_event_quiet [where run = run and xs = xs,
          OF assms(1) assms(2) assms(3) assms(4) assms(5) q])
qed

text \<open>
  C6 on the suppression examples of the specification, with the event id \<^verbatim>\<open>"e1"\<close>:
  handlers returning false, true, false give \<^verbatim>\<open>stopEvent\<close> true, and handlers returning
  false, false, false give \<^verbatim>\<open>stopEvent\<close> false.
\<close>

theorem event_envelope_dispatch_witness:
  "onMessageReceived example_run example_app suppressing_client (Inr (presend_event (JStr ''e1''))) =
     Some (suppressing_client,
      [Invoke (Fn 0) (Some 10) [JStr ''hi''], Invoke (Fn 1) (Some 11) [JStr ''hi''],
       Invoke (Fn 0) (Some 12) [JStr ''hi''],
       Post (JObj [(''eventId'', JStr ''e1''), (''stopEvent'', JBool True)])],
      Inr ())
   \<and> onMessageReceived example_run example_app permissive_client (Inr (presend_event (JStr ''e1''))) =
     Some (permissive_client,
      [Invoke (Fn 0) (Some 10) [JStr ''hi''], Invoke (Fn 0) (Some 11) [JStr ''hi''],
       Invoke (Fn 0) (Some 12) [JStr ''hi''],
       Post (JObj [(''eventId'', JStr ''e1''), (''stopEvent'', JBool False)])],
      Inr ())"
proof -
  let ?ev = "JObj [(''name'', JStr ''beforemessagesend''), (''args'', JArr [JStr ''hi'']),
                   (''id'', JStr ''e1'')]"
  let ?hs1 = "[\<lparr> handler = Fn 0, scope = Some 10 \<rparr>, \<lparr> handler = Fn 1, scope = Some 11 \<rparr>,
               \<lparr> handler = Fn 0, scope = Some 12 \<rparr>]"
  let ?hs2 = "[\<lparr> handler = Fn 0, scope = Some 10 \<rparr>, \<lparr> handler = Fn 0, scope = Some 11 \<rparr>,
               \<lparr> handler = Fn 0, scope = Some 12 \<rparr>]"
  let ?ret = "\<lambda>h. projr (example_app (handler h) (scope h) [JStr ''hi''])"
  have e1: "truthy ?ev" by simp
  have e2: "getProp (presend_event (JStr ''e1'')) ''event'' = ?ev"
    by (simp add: presend_event_def)
  have e3: "toPropertyKey (getProp ?ev ''name'') = Inr ''beforemessagesend''" by simp
  have e5: "getProp ?ev ''args'' = JArr [JStr ''hi''] \<or>
      (\<not> truthy (getProp ?ev ''args'') \<and> [JStr ''hi''] = [])"
    by simp
  have l1: "handlers (eventDispatcher suppressing_client) ''beforemessagesend'' = Some (HandlerArray ?hs1)
      \<or> (handlers (eventDispatcher suppressing_client) ''beforemessagesend'' = None
          \<and> Object_prototype ''beforemessagesend'' = None \<and> ?hs1 = [])"
    by (simp add: suppressing_client_handlers)
  have l2: "handlers (eventDispatcher permissive_client) ''beforemessagesend'' = Some (HandlerArray ?hs2)
      \<or> (handlers (eventDispatcher permissive_client) ''beforemessagesend'' = None
          \<and> Object_prototype ''beforemessagesend'' = None \<and> ?hs2 = [])"
    by (simp add: permissive_client_handlers)
  have s1: "(\<forall>h \<in> set ?hs1. \<forall>d. handlers d ''beforemessagesend'' = Some (HandlerArray ?hs1) \<longrightarrow>
        handlers (snd (example_run (handler h) (scope h) [JStr ''hi''] d)) ''beforemessagesend'' =
          Some (HandlerArray ?hs1))
      \<and> dispatch_in_order example_run ?hs1 [JStr ''hi''] (eventDispatcher suppressing_client) =
          ([Invoke (Fn 0) (Some 10) [JStr ''hi''], Invoke (Fn 1) (Some 11) [JStr ''hi''],
            Invoke (Fn 0) (Some 12) [JStr ''hi'']],
           Inr [JBool False, JBool True, JBool False], eventDispatcher suppressing_client)"
    by (simp add: example_run_def quiet_run_def example_app_def)
  have q2: "\<forall>h \<in> set ?hs2. \<forall>d. example_run (handler h) (scope h) [JStr ''hi''] d = (Inr (?ret h), d)"
    by (simp add: example_run_def quiet_run_def example_app_def)
  from event_envelope_dispatch [where run = example_run and app = example_app
      and c = suppressing_client and hs = ?hs1 and xs = "[JStr ''hi'']"
      and rs = "[JBool False, JBool True, JBool False]" and d' = "eventDispatcher suppressing_client",
      OF e1 e2 e3 l1 e5] s1
  have s: "onMessageReceived example_run example_app suppressing_client
        (Inr (presend_event (JStr ''e1''))) =
     Some (suppressing_client\<lparr> eventDispatcher := eventDispatcher suppressing_client \<rparr>,
      map (\<lambda>h. Invoke (handler h) (scope h) [JStr ''hi'']) ?hs1 @
        (if truthy (getProp ?ev ''id'')
         then [Post (JObj [(''eventId'', getProp ?ev ''id''),
                           (''stopEvent'',
                            JBool (JBool True \<in> set [JBool False, JBool True, JBool False]))])]
         else []),
      Inr ())"
    by blast
  from event_envelope_dispatch [where run = example_run and app = example_app
      and c = permissive_client and hs = ?hs2 and xs = "[JStr ''hi'']" and ret = ?ret,
      OF e1 e2 e3 l2 e5] q2
  have p: "onMessageReceived example_run example_app permissive_client
        (Inr (presend_event (JStr ''e1''))) =
     Some (permissive_client,
      map (\<lambda>h. Invoke (handler h) (scope h) [JStr ''hi'']) ?hs2 @
        (if truthy (getProp ?ev ''id'')
         then [Post (JObj [(''eventId'', getProp ?ev ''id''),
                           (''stopEvent'', JBool (\<exists>h \<in> set ?hs2. ?ret h = JBool True))])]
         else []),
      Inr ())"
    by blast
  from s p show ?thesis by (simp add: example_app_def)
qed

text \<open>
  Claim C6 as stated fails: it promises an acknowledgement whenever the envelope
  carried an id. The envelope \<^verbatim>\<open>{"event":{"name":"beforemessagesend","args":["hi"],"id":0}}\<close>
  carries the id \<^verbatim>\<open>0\<close>; its three handlers are called and nothing is posted.
\<close>

theorem event_id_zero_not_acknowledged:
  "onMessageReceived example_run example_app suppressing_client (Inr (presend_event (JNum 0))) =
     Some (suppressing_client,
      [Invoke (Fn 0) (Some 10) [JStr ''hi''], Invoke (Fn 1) (Some 11) [JStr ''hi''],
       Invoke (Fn 0) (Some 12) [JStr ''hi'']],
      Inr ())
   \<and> getProp (getProp (presend_event (JNum 0)) ''event'') ''id'' = JNum 0"
  using presend_event_suppressing [of "JNum 0"] by (simp add: presend_event_fields)

subsection \<open>Claim C10: an event envelope that also looks like a response\<close>

text \<open>\<^verbatim>\<open>dispatchApiEvent\<close> writes no field of the client: the client it leaves differs from
  the one it found in the dispatcher at most, and not at all when the handlers leave the
  dispatcher alone.\<close>

lemma dispatchApiEvent_client:
  assumes "dispatchApiEvent run c message = Some (fx, out, c')"
  shows "c' = c\<lparr> eventDispatcher := eventDispatcher c' \<rparr>"
proof (cases "toPropertyKey (getProp (getProp message ''event'') ''name'')")
  case (Inl e)
  with assms show ?thesis by (auto simp: dispatchApiEvent_def)
next
  case (Inr eventName)
  note n = Inr
  show ?thesis
  proof (cases "callHandlers run (eventDispatcher c) eventName
      (getProp (getProp message ''event'') ''args'')")
    case None
    with assms n show ?thesis by (simp add: dispatchApiEvent_def)
  next
    case (Some y)
    obtain fx0 r d1 where y: "y = (fx0, r, d1)" by (cases y) auto
    with assms n Some show ?thesis
      by (cases r) (auto simp: dispatchApiEvent_def Let_def split: if_splits)
  qed
qed

lemma dispatchApiEvent_quiet:
  assumes "dispatchApiEvent run c message = Some (fx, out, c')"
    and "\<forall>f s xs d. snd (run f s xs d) = d"
  shows "c' = c"
proof (cases "toPropertyKey (getProp (getProp message ''event'') ''name'')")
  case (Inl e)
  with assms show ?thesis by (auto simp: dispatchApiEvent_def)
next
  case (Inr eventName)
  note n = Inr
  show ?thesis
  proof (cases "callHandlers run (eventDispatcher c) eventName
      (getProp (getProp message ''event'') ''args'')")
    case None
    with assms n show ?thesis by (simp add: dispatchApiEvent_def)
  next
    case (Some y)
    obtain fx0 r d1 where y: "y = (fx0, r, d1)" by (cases y) auto
    with Some have call: "callHandlers run (eventDispatcher c) eventName
      (getProp (getProp message ''event'') ''args'') = Some (fx0, r, d1)"
      by simp
    have "d1 = eventDispatcher c" by (rule callHandlers_quiet [OF call assms(2)])
    with assms(1) n call show ?thesis
      by (cases r) (auto simp: dispatchApiEvent_def Let_def split: if_splits)
  qed
qed

text \<open>What \<^verbatim>\<open>dispatchApiEvent\<close> does is the same whatever the pending-call table holds.\<close>

lemma dispatchApiEvent_table:
  assumes "dispatchApiEvent run c message = Some (fx, out, c')"
  shows "dispatchApiEvent run (c\<lparr> callbacks := table \<rparr>) message =
           Some (fx, out, c'\<lparr> callbacks := table \<rparr>)"
proof (cases "toPropertyKey (getProp (getProp message ''event'') ''name'')")
  case (Inl e)
  with assms show ?thesis by (auto simp: dispatchApiEvent_def)
next
  case (Inr eventName)
  note n = Inr
  show ?thesis
  proof (cases "callHandlers run (eventDispatcher c) eventName
      (getProp (getProp message ''event'') ''args'')")
    case None
    with assms n show ?thesis by (simp add: dispatchApiEvent_def)
  next
    case (Some y)
    obtain fx0 r d1 where y: "y = (fx0, r, d1)" by (cases y) auto
    with assms n Some show ?thesis
      by (cases r) (auto simp: dispatchApiEvent_def Let_def split: if_splits)
  qed
qed

text \<open>With handlers that leave the dispatcher alone, every call \<^verbatim>\<open>dispatchApiEvent\<close> makes
  is a call of a handler registered with the dispatcher, with the scope registered with
  it.\<close>

lemma dispatchApiEvent_effects:
  assumes "dispatchApiEvent run c message = Some (fx, out, c')"
    and "\<forall>f s xs d. snd (run f s xs d) = d" and "Invoke f s xs \<in> set fx"
  shows "\<exists>eventName hs h. handlers (eventDispatcher c) eventName = Some (HandlerArray hs)
           \<and> h \<in> set hs \<and> f = handler h \<and> s = scope h"
proof (cases "toPropertyKey (getProp (getProp message ''event'') ''name'')")
  case (Inl e)
  with assms show ?thesis by (auto simp: dispatchApiEvent_def)
next
  case (Inr eventName)
  note n = Inr
  show ?thesis
  proof (cases "callHandlers run (eventDispatcher c) eventName
      (getProp (getProp message ''event'') ''args'')")
    case None
    with assms n show ?thesis by (simp add: dispatchApiEvent_def)
  next
    case (Some y)
    obtain fx0 r d1 where y: "y = (fx0, r, d1)" by (cases y) auto
    with Some have call: "callHandlers run (eventDispatcher c) eventName
      (getProp (getProp message ''event'') ''args'') = Some (fx0, r, d1)"
      by simp
    from assms(1,3) n call have inv: "Invoke f s xs \<in> set fx0"
      by (cases r) (auto simp: dispatchApiEvent_def Let_def split: if_splits)
    from callHandlers_effects [OF call assms(2) inv] show ?thesis by blast
  qed
qed

text \<open>When \<^verbatim>\<open>dispatchApiEvent\<close> completes, the acknowledgement is the last thing done and
  the only message posted, and it is posted exactly when the event's id is truthy.\<close>

lemma dispatchApiEvent_acknowledges:
  assumes "dispatchApiEvent run c message = Some (fx, Inr (), c')"
  shows "if truthy (getProp (getProp message ''event'') ''id'')
         then \<exists>fx0 r. fx = fx0 @ [Post (JObj [(''eventId'', getProp (getProp message ''event'') ''id''),
                                               (''stopEvent'', JBool r)])]
                 \<and> (\<forall>x. Post x \<notin> set fx0)
         else \<forall>x. Post x \<notin> set fx"
proof (cases "toPropertyKey (getProp (getProp message ''event'') ''name'')")
  case (Inl e)
  with assms show ?thesis by (simp add: dispatchApiEvent_def)
next
  case (Inr eventName)
  note n = Inr
  show ?thesis
  proof (cases "callHandlers run (eventDispatcher c) eventName
      (getProp (getProp message ''event'') ''args'')")
    case None
    with assms n show ?thesis by (simp add: dispatchApiEvent_def)
  next
    case (Some y)
    obtain fx0 r d1 where y: "y = (fx0, r, d1)" by (cases y) auto
    with Some have call: "callHandlers run (eventDispatcher c) eventName
      (getProp (getProp message ''event'') ''args'') = Some (fx0, r, d1)"
      by simp
    have np: "\<forall>x. Post x \<notin> set fx0"
      using callHandlers_no_post [OF call] by simp
    show ?thesis
    proof (cases r)
      case (Inl e)
      with assms n call show ?thesis by (simp add: dispatchApiEvent_def)
    next
      case (Inr results)
      with assms n call np show ?thesis
        by (auto simp: dispatchApiEvent_def Let_def split: if_splits)
    qed
  qed
qed

text \<open>The event envelope that also has the fields of a response to \<^verbatim>\<open>cb-1\<close>, with the
  event id \<open>i\<close>, on the example client.\<close>

lemma event_with_response_fields_suppressing:
  "onMessageReceived quiet_run example_app suppressing_client (Inr (event_with_response_fields i)) =
     Some (suppressing_client,
      [Invoke (Fn 0) (Some 10) [JStr ''hi''], Invoke (Fn 1) (Some 11) [JStr ''hi''],
       Invoke (Fn 0) (Some 12) [JStr ''hi'']] @
      (if truthy i then [Post (JObj [(''eventId'', i), (''stopEvent'', JBool True)])] else []),
      Inr ())"
proof -
  let ?ev = "JObj [(''name'', JStr ''beforemessagesend''), (''args'', JArr [JStr ''hi'']), (''id'', i)]"
  let ?hs = "[\<lparr> handler = Fn 0, scope = Some 10 \<rparr>, \<lparr> handler = Fn 1, scope = Some 11 \<rparr>,
              \<lparr> handler = Fn 0, scope = Some 12 \<rparr>]"
  let ?ret = "\<lambda>h. projr (example_app (handler h) (scope h) [JStr ''hi''])"
  have e: "getProp (event_with_response_fields i) ''event'' = ?ev"
    by (simp add: event_with_response_fields_def)
  have "onMessageReceived quiet_run example_app suppressing_client
        (Inr (event_with_response_fields i)) =
     Some (suppressing_client,
      map (\<lambda>h. Invoke (handler h) (scope h) [JStr ''hi'']) ?hs @
        (if truthy (getProp ?ev ''id'')
         then [Post (JObj [(''eventId'', getProp ?ev ''id''),
                           (''stopEvent'', JBool (\<exists>h \<in> set ?hs. ?ret h = JBool True))])]
         else []),
      Inr ())"
    by (rule onMessageReceived_event_quiet [where run = quiet_run
          and eventName = "''beforemessagesend''" and ret = ?ret])
       (simp_all add: e suppressing_client_handlers quiet_run_def example_app_def)
  then show ?thesis by (simp add: example_app_def)
qed

text \<open>
  Claim C10, as amended. A parsed message with a truthy \<^verbatim>\<open>event\<close> field and a truthy
  \<^verbatim>\<open>id\<close> field is handled as an event envelope only: what the listener does is what
  \<^verbatim>\<open>dispatchApiEvent\<close> does; that does not depend on the pending-call table, which is
  never read; every pending call is left as it was, and so is the whole client but for
  what the handlers themselves do to the dispatcher; when the handlers leave the
  dispatcher alone, the client is left as it was and every function called is a handler
  registered with the dispatcher, called as such, so that no continuation of a pending
  call is invoked on account of the \<^verbatim>\<open>id\<close>; and when the dispatch completes, the event
  has been acknowledged, as the last step and by one message, if and only if
  \<^verbatim>\<open>event.id\<close> is truthy.
\<close>

theorem event_envelope_leaves_pending_calls:
  assumes "truthy (getProp message ''event'')" and "truthy (getProp message ''id'')"
    and "onMessageReceived run app c (Inr message) = Some (c', fx, out)"
  shows "c' = c\<lparr> eventDispatcher := eventDispatcher c' \<rparr>
    \<and> callbacks c' = callbacks c
    \<and> dispatchApiEvent run c message = Some (fx, out, c')
    \<and> dispatchApiEvent run (c\<lparr> callbacks := table \<rparr>) message =
        Some (fx, out, c'\<lparr> callbacks := table \<rparr>)
    \<and> ((\<forall>f s xs d. snd (run f s xs d) = d) \<longrightarrow>
          c' = c
          \<and> (\<forall>f s xs. Invoke f s xs \<in> set fx \<longrightarrow>
               (\<exists>eventName hs h. handlers (eventDispatcher c) eventName = Some (HandlerArray hs)
                  \<and> h \<in> set hs \<and> f = handler h \<and> s = scope h)))
    \<and> (out = Inr () \<longrightarrow>
          (if truthy (getProp (getProp message ''event'') ''id'')
           then \<exists>fx0 r. fx = fx0 @ [Post (JObj [(''eventId'', getProp (getProp message ''event'') ''id''),
                                                 (''stopEvent'', JBool r)])]
                   \<and> (\<forall>x. Post x \<notin> set fx0)
           else \<forall>x. Post x \<notin> set fx))"
proof -
  have m: "truthy message" using assms(1) getProp_truthy by blast
  from assms(1,3) m have r: "dispatchApiEvent run c message = Some (fx, out, c')"
    by (auto simp: onMessageReceived_def isApiEvent_def split: option.splits prod.splits)
  have cl: "c' = c\<lparr> eventDispatcher := eventDispatcher c' \<rparr>"
    by (rule dispatchApiEvent_client [OF r])
  have cb: "callbacks c' = callbacks c"
    by (subst cl) simp
  have ind: "dispatchApiEvent run (c\<lparr> callbacks := table \<rparr>) message =
        Some (fx, out, c'\<lparr> callbacks := table \<rparr>)"
    by (rule dispatchApiEvent_table [OF r])
  have quiet: "c' = c
          \<and> (\<forall>f s xs. Invoke f s xs \<in> set fx \<longrightarrow>
               (\<exists>eventName hs h. handlers (eventDispatcher c) eventName = Some (HandlerArray hs)
                  \<and> h \<in> set hs \<and> f = handler h \<and> s = scope h))"
    if q: "\<forall>f s xs d. snd (run f s xs d) = d"
  proof (intro conjI allI impI)
    show "c' = c" by (rule dispatchApiEvent_quiet [OF r q])
  next
    fix f s xs
    assume "Invoke f s xs \<in> set fx"
    then show "\<exists>eventName hs h. handlers (eventDispatcher c) eventName = Some (HandlerArray hs)
                  \<and> h \<in> set hs \<and> f = handler h \<and> s = scope h"
      by (rule dispatchApiEvent_effects [OF r q])
  qed
  have ack: "if truthy (getProp (getProp message ''event'') ''id'')
           then \<exists>fx0 r. fx = fx0 @ [Post (JObj [(''eventId'', getProp (getProp message ''event'') ''id''),
                                                 (''stopEvent'', JBool r)])]
                   \<and> (\<forall>x. Post x \<notin> set fx0)
           else \<forall>x. Post x \<notin> set fx" if "out = Inr ()"
    using dispatchApiEvent_acknowledges [of run c message fx c'] r that by simp
  show ?thesis
  proof (intro conjI impI)
    show "c' = c\<lparr> eventDispatcher := eventDispatcher c' \<rparr>" by (rule cl)
    show "callbacks c' = callbacks c" by (rule cb)
    show "dispatchApiEvent run c message = Some (fx, out, c')" by (rule r)
    show "dispatchApiEvent run (c\<lparr> callbacks := table \<rparr>) message =
        Some (fx, out, c'\<lparr> callbacks := table \<rparr>)" by (rule ind)
  next
    assume "\<forall>f s xs d. snd (run f s xs d) = d"
    from quiet [OF this] show "c' = c" by (rule conjunct1)
  next
    assume "\<forall>f s xs d. snd (run f s xs d) = d"
    from quiet [OF this] show "\<forall>f s xs. Invoke f s xs \<in> set fx \<longrightarrow>
               (\<exists>eventName hs h. handlers (eventDispatcher c) eventName = Some (HandlerArray hs)
                  \<and> h \<in> set hs \<and> f = handler h \<and> s = scope h)" by (rule conjunct2)
  next
    assume "out = Inr ()"
    from ack [OF this] show "if truthy (getProp (getProp message ''event'') ''id'')
           then \<exists>fx0 r. fx = fx0 @ [Post (JObj [(''eventId'', getProp (getProp message ''event'') ''id''),
                                                 (''stopEvent'', JBool r)])]
                   \<and> (\<forall>x. Post x \<notin> set fx0)
           else \<forall>x. Post x \<notin> set fx" .
  qed
qed

text \<open>
  C10 on an envelope that has the event fields, with the event id \<^verbatim>\<open>"e1"\<close>, and the
  fields of a successful response to the pending call \<^verbatim>\<open>cb-1\<close>, with handlers that
  leave the dispatcher alone: the three pre-send handlers are called and the event is
  acknowledged, the client is left as it was, the call \<^verbatim>\<open>cb-1\<close> stays registered, the
  same is done when no call is pending, the function \<open>Fn 1\<close> called with scope 11 is a
  handler registered so, and the acknowledgement is the last effect and the only message.
\<close>

theorem event_envelope_leaves_pending_calls_witness:
  "onMessageReceived quiet_run example_app suppressing_client
       (Inr (event_with_response_fields (JStr ''e1''))) =
     Some (suppressing_client,
      [Invoke (Fn 0) (Some 10) [JStr ''hi''], Invoke (Fn 1) (Some 11) [JStr ''hi''],
       Invoke (Fn 0) (Some 12) [JStr ''hi''],
       Post (JObj [(''eventId'', JStr ''e1''), (''stopEvent'', JBool True)])],
      Inr ())
   \<and> callbacks suppressing_client ''cb-1'' =
       Some \<lparr> success = Some (Fn 5), failure = Some (Fn 6), cscope = Some 20 \<rparr>
   \<and> dispatchApiEvent quiet_run (suppressing_client\<lparr> callbacks := Map.empty \<rparr>)
         (event_with_response_fields (JStr ''e1''))
       = Some ([Invoke (Fn 0) (Some 10) [JStr ''hi''], Invoke (Fn 1) (Some 11) [JStr ''hi''],
                Invoke (Fn 0) (Some 12) [JStr ''hi''],
                Post (JObj [(''eventId'', JStr ''e1''), (''stopEvent'', JBool True)])],
               Inr (), suppressing_client\<lparr> callbacks := Map.empty \<rparr>)
   \<and> (\<exists>eventName hs h. handlers (eventDispatcher suppressing_client) eventName =
              Some (HandlerArray hs) \<and> h \<in> set hs \<and> Fn 1 = handler h \<and> Some 11 = scope h)
   \<and> (\<exists>fx0 r. [Invoke (Fn 0) (Some 10) [JStr ''hi''], Invoke (Fn 1) (Some 11) [JStr ''hi''],
                Invoke (Fn 0) (Some 12) [JStr ''hi''],
                Post (JObj [(''eventId'', JStr ''e1''), (''stopEvent'', JBool True)])] =
               fx0 @ [Post (JObj [(''eventId'', JStr ''e1''), (''stopEvent'', JBool r)])]
             \<and> (\<forall>x. Post x \<notin> set fx0))"
proof -
  let ?fx = "[Invoke (Fn 0) (Some 10) [JStr ''hi''], Invoke (Fn 1) (Some 11) [JStr ''hi''],
       Invoke (Fn 0) (Some 12) [JStr ''hi''],
       Post (JObj [(''eventId'', JStr ''e1''), (''stopEvent'', JBool True)])]"
  have run: "onMessageReceived quiet_run example_app suppressing_client
        (Inr (event_with_response_fields (JStr ''e1''))) =
     Some (suppressing_client, ?fx, Inr ())"
    using event_with_response_fields_suppressing [of "JStr ''e1''"] by simp
  have t1: "truthy (getProp (event_with_response_fields (JStr ''e1'')) ''event'')"
    by (simp add: event_with_response_fields_def)
  have t2: "truthy (getProp (event_with_response_fields (JStr ''e1'')) ''id'')"
    by (simp add: event_with_response_fields_def)
  have q: "\<forall>f s xs d. snd (quiet_run f s xs d) = d"
    by (simp add: quiet_run_def)
  note t = event_envelope_leaves_pending_calls [OF t1 t2 run, where table = Map.empty]
  from t have ind: "dispatchApiEvent quiet_run (suppressing_client\<lparr> callbacks := Map.empty \<rparr>)
         (event_with_response_fields (JStr ''e1''))
       = Some (?fx, Inr (), suppressing_client\<lparr> callbacks := Map.empty \<rparr>)"
    by blast
  from t q have reg: "\<forall>f s xs. Invoke f s xs \<in> set ?fx \<longrightarrow>
         (\<exists>eventName hs h. handlers (eventDispatcher suppressing_client) eventName =
              Some (HandlerArray hs) \<and> h \<in> set hs \<and> f = handler h \<and> s = scope h)"
    by blast
  have cb: "callbacks suppressing_client ''cb-1'' =
       Some \<lparr> success = Some (Fn 5), failure = Some (Fn 6), cscope = Some 20 \<rparr>"
    by (simp add: suppressing_client_def pending_client_callbacks)
  have "Invoke (Fn 1) (Some 11) [JStr ''hi''] \<in> set ?fx" by simp
  with reg have one: "\<exists>eventName hs h. handlers (eventDispatcher suppressing_client) eventName =
              Some (HandlerArray hs) \<and> h \<in> set hs \<and> Fn 1 = handler h \<and> Some 11 = scope h"
    by blast
  have id: "getProp (getProp (event_with_response_fields (JStr ''e1'')) ''event'') ''id'' = JStr ''e1''"
    by (simp add: event_with_response_fields_def)
  from t have "if truthy (getProp (getProp (event_with_response_fields (JStr ''e1'')) ''event'') ''id'')
           then \<exists>fx0 r. ?fx = fx0 @ [Post (JObj [(''eventId'',
                     getProp (getProp (event_with_response_fields (JStr ''e1'')) ''event'') ''id''),
                   (''stopEvent'', JBool r)])]
                   \<and> (\<forall>x. Post x \<notin> set fx0)
           else \<forall>x. Post x \<notin> set ?fx"
    by blast
  then have ack: "\<exists>fx0 r. ?fx = fx0 @ [Post (JObj [(''eventId'', JStr ''e1''), (''stopEvent'', JBool r)])]
                   \<and> (\<forall>x. Post x \<notin> set fx0)"
    unfolding id by simp
  from run cb ind one ack show ?thesis by (intro conjI)
qed

text \<open>
  Claim C10 as stated fails in one detail: it says the event is acknowledged if
  \<^verbatim>\<open>event.id\<close> is present. In the envelope below, \<^verbatim>\<open>event.id\<close> is present and is
  \<^verbatim>\<open>0\<close>, the top-level \<^verbatim>\<open>id\<close> is \<^verbatim>\<open>"cb-1"\<close>; the handlers are called, the pending call
  is left alone, and no acknowledgement is posted.
\<close>

theorem event_id_zero_beside_response_fields:
  "onMessageReceived quiet_run example_app suppressing_client
       (Inr (event_with_response_fields (JNum 0))) =
     Some (suppressing_client,
      [Invoke (Fn 0) (Some 10) [JStr ''hi''], Invoke (Fn 1) (Some 11) [JStr ''hi''],
       Invoke (Fn 0) (Some 12) [JStr ''hi'']],
      Inr ())
   \<and> getProp (getProp (event_with_response_fields (JNum 0)) ''event'') ''id'' = JNum 0
   \<and> getProp (event_with_response_fields (JNum 0)) ''id'' = JStr ''cb-1''"
  using event_with_response_fields_suppressing [of "JNum 0"]
  by (simp add: event_with_response_fields_def)

subsection \<open>Claim C3: the awaitable variants\<close>

text \<open>The awaitable variants of the message transport are requests whose continuations
  are the settling functions of the promise returned.\<close>

lemma awaitable_variants_are_requests:
  "getChatRoomAsync c p =
     sendApiRequest c ''GetChatRoom'' (Some (PromiseResolve p)) (Some (PromiseReject p)) None JNull"
  "getLocalUserDetailsAsync c p =
     sendApiRequest c ''GetLocalUserDetails'' (Some (PromiseResolve p)) (Some (PromiseReject p)) None JNull"
  "getDomainDetailsAsync c p =
     sendApiRequest c ''GetDomainDetails'' (Some (PromiseResolve p)) (Some (PromiseReject p)) None JNull"
  "getMaxMessageLengthAsync c p =
     sendApiRequest c ''GetMaxMessageLength'' (Some (PromiseResolve p)) (Some (PromiseReject p)) None JNull"
  "sendMessageAsync c message alert p =
     sendApiRequest c ''SendMessage'' (Some (PromiseResolve p)) (Some (PromiseReject p)) None
       (JObj [(''message'', JStr message), (''alert'', JBool alert)])"
  by (simp_all add: getChatRoomAsync_def getLocalUserDetailsAsync_def getDomainDetailsAsync_def
      getMaxMessageLengthAsync_def sendMessageAsync_def getChatRoom_def getLocalUserDetails_def
      getDomainDetails_def getMaxMessageLength_def sendMessage_def)

text \<open>The response to such a request settles the promise: fulfilled with the response
  value when \<^verbatim>\<open>success\<close> is truthy, rejected with it otherwise.\<close>

lemma awaitable_request_settles:
  assumes "getProp message ''id'' = JStr (callbackPrefix @ showNat (nextCallbackId c))"
    and "ps p = Pending"
    and "response = (if truthy (getProp message ''result'') then getProp message ''result'' else JStr [])"
    and "c1 = fst (sendApiRequest c method (Some (PromiseResolve p)) (Some (PromiseReject p)) None args)"
  shows "fst (snd (invokeResponseCallback app c1 message)) =
           [Invoke (if truthy (getProp message ''success'') then PromiseResolve p else PromiseReject p)
              None [response]]"
    and "settle ps (Invoke (if truthy (getProp message ''success'') then PromiseResolve p
                            else PromiseReject p) None [response]) p =
           (if truthy (getProp message ''success'') then Fulfilled response else Rejected response)"
proof -
  let ?key = "callbackPrefix @ showNat (nextCallbackId c)"
  let ?cb = "\<lparr> success = Some (PromiseResolve p), failure = Some (PromiseReject p), cscope = None \<rparr>"
  have key: "?key \<noteq> []" by (simp add: callbackPrefix_def)
  have reg: "callbacks c1 ?key = Some ?cb"
    by (simp add: assms(4) sendApiRequest_registers)
  show "fst (snd (invokeResponseCallback app c1 message)) =
           [Invoke (if truthy (getProp message ''success'') then PromiseResolve p else PromiseReject p)
              None [response]]"
  proof (cases "truthy (getProp message ''success'')")
    case True
    from invokeResponseCallback_success [where app = app, OF assms(1) key reg True]
    show ?thesis using True assms(3) by simp
  next
    case False
    from invokeResponseCallback_failure [where app = app, OF assms(1) key reg False]
    show ?thesis using False assms(3) by simp
  qed
  show "settle ps (Invoke (if truthy (getProp message ''success'') then PromiseResolve p
                            else PromiseReject p) None [response]) p =
           (if truthy (getProp message ''success'') then Fulfilled response else Rejected response)"
    using assms(2) by simp
qed

text \<open>
  Claim C3 says that on both transports each of \<^verbatim>\<open>getChatRoom\<close>,
  \<^verbatim>\<open>getLocalUserDetails\<close>, \<^verbatim>\<open>getDomainDetails\<close>, \<^verbatim>\<open>getMaxMessageLength\<close> and
  \<^verbatim>\<open>sendMessage\<close> has an awaitable variant. The interface \<^verbatim>\<open>IAddInClient\<close> declares the
  five variants and the post-message client defines them, each resolving with the value
  its success callback would get and rejecting with the value its failure callback
  would get (\<open>awaitable_variants_are_requests\<close>, \<open>awaitable_request_settles\<close>). But the
  direct client, which declares to implement the interface, defines none: calling any
  of them on it throws.
\<close>

theorem DirectAddInClient_lacks_awaitable_variants:
  "call_by_name DirectAddInClient_methods ''getChatRoomAsync'' = Inl TypeError
   \<and> call_by_name DirectAddInClient_methods ''getLocalUserDetailsAsync'' = Inl TypeError
   \<and> call_by_name DirectAddInClient_methods ''getDomainDetailsAsync'' = Inl TypeError
   \<and> call_by_name DirectAddInClient_methods ''getMaxMessageLengthAsync'' = Inl TypeError
   \<and> call_by_name DirectAddInClient_methods ''sendMessageAsync'' = Inl TypeError
   \<and> call_by_name DirectAddInClient_methods ''getChatRoom'' = Inr ()
   \<and> call_by_name PostMessageAddInClient_methods ''getChatRoomAsync'' = Inr ()
   \<and> call_by_name PostMessageAddInClient_methods ''getLocalUserDetailsAsync'' = Inr ()
   \<and> call_by_name PostMessageAddInClient_methods ''getDomainDetailsAsync'' = Inr ()
   \<and> call_by_name PostMessageAddInClient_methods ''getMaxMessageLengthAsync'' = Inr ()
   \<and> call_by_name PostMessageAddInClient_methods ''sendMessageAsync'' = Inr ()
   \<and> ''getChatRoomAsync'' \<in> set IAddInClient_methods
   \<and> ''getLocalUserDetailsAsync'' \<in> set IAddInClient_methods
   \<and> ''getDomainDetailsAsync'' \<in> set IAddInClient_methods
   \<and> ''getMaxMessageLengthAsync'' \<in> set IAddInClient_methods
   \<and> ''sendMessageAsync'' \<in> set IAddInClient_methods"
  by (simp add: call_by_name_def DirectAddInClient_methods_def IAddInClient_methods_def
      PostMessageAddInClient_methods_def)

end
